theory Spec2Isabelle
  imports Complex_Main "HOL-Library.Sublist"
begin

section \<open>Strings as the TypeScript sources use them\<close>

text \<open>
  A JavaScript string is a sequence of code units; the model is \<^typ>\<open>string\<close>, one
  \<^typ>\<open>char\<close> per code unit (code units below 256). The two characters that cannot be
  written inside a literal get a name.
\<close>

definition NL :: char where
  "NL = CHR 0x0A"

definition DQ :: char where
  "DQ = CHR 0x22"

text \<open>The class \<^verbatim>\<open>\s\<close> of a JavaScript regular expression, on code units below 256.\<close>

definition is_space :: "char \<Rightarrow> bool" where
  "is_space c = (c \<in> set [CHR 0x09, CHR 0x0A, CHR 0x0B, CHR 0x0C, CHR 0x0D, CHR 0x20, CHR 0xA0])"

text \<open>The line terminators that \<^verbatim>\<open>.\<close> does not match (below 256: LF and CR).\<close>

definition is_line_terminator :: "char \<Rightarrow> bool" where
  "is_line_terminator c = (c \<in> set [CHR 0x0A, CHR 0x0D])"

text \<open>
  \<^verbatim>\<open>toLowerCase\<close> on code units below 256: the ASCII capitals and the capitals of
  the Latin-1 range.
\<close>

definition upper_letters :: string where
  "upper_letters = ''ABCDEFGHIJKLMNOPQRSTUVWXYZ'' @
     [CHR 0xC0, CHR 0xC1, CHR 0xC2, CHR 0xC3, CHR 0xC4, CHR 0xC5, CHR 0xC6, CHR 0xC7,
      CHR 0xC8, CHR 0xC9, CHR 0xCA, CHR 0xCB, CHR 0xCC, CHR 0xCD, CHR 0xCE, CHR 0xCF,
      CHR 0xD0, CHR 0xD1, CHR 0xD2, CHR 0xD3, CHR 0xD4, CHR 0xD5, CHR 0xD6, CHR 0xD8,
      CHR 0xD9, CHR 0xDA, CHR 0xDB, CHR 0xDC, CHR 0xDD, CHR 0xDE]"

definition lower_letters :: string where
  "lower_letters = ''abcdefghijklmnopqrstuvwxyz'' @
     [CHR 0xE0, CHR 0xE1, CHR 0xE2, CHR 0xE3, CHR 0xE4, CHR 0xE5, CHR 0xE6, CHR 0xE7,
      CHR 0xE8, CHR 0xE9, CHR 0xEA, CHR 0xEB, CHR 0xEC, CHR 0xED, CHR 0xEE, CHR 0xEF,
      CHR 0xF0, CHR 0xF1, CHR 0xF2, CHR 0xF3, CHR 0xF4, CHR 0xF5, CHR 0xF6, CHR 0xF8,
      CHR 0xF9, CHR 0xFA, CHR 0xFB, CHR 0xFC, CHR 0xFD, CHR 0xFE]"

definition to_lower :: "char \<Rightarrow> char" where
  "to_lower c = (case map_of (zip upper_letters lower_letters) c of Some d \<Rightarrow> d | None \<Rightarrow> c)"

text \<open>\<^verbatim>\<open>Array.prototype.join(sep)\<close>: the empty array joins to the empty string.\<close>

fun join :: "string \<Rightarrow> string list \<Rightarrow> string" where
  "join sep [] = []"
| "join sep [x] = x"
| "join sep (x # y # ys) = x @ sep @ join sep (y # ys)"

text \<open>
  \<^verbatim>\<open>String.prototype.split(sep)\<close> for a non-empty separator string: the separator is
  looked for from left to right, matches do not overlap, and the empty string splits
  into one empty piece. \<open>acc\<close> is the piece being read.
\<close>

function split_from :: "string \<Rightarrow> string \<Rightarrow> string \<Rightarrow> string list" where
  "split_from sep acc [] = [acc]"
| "split_from sep acc (c # cs) =
     (if sep \<noteq> [] \<and> prefix sep (c # cs)
      then acc # split_from sep [] (drop (length sep) (c # cs))
      else split_from sep (acc @ [c]) cs)"
  by pat_completeness auto
termination
  by (relation "measure (\<lambda>(sep, acc, rest). length rest)") (auto simp: Suc_le_eq)

definition split :: "string \<Rightarrow> string \<Rightarrow> string list" where
  "split sep s = split_from sep [] s"

text \<open>
  \<^verbatim>\<open>split(/\s+/)\<close>: every maximal run of white space is one separator; white space at
  either end of the string leaves an empty piece there.
\<close>

function split_ws_from :: "string \<Rightarrow> string \<Rightarrow> string list" where
  "split_ws_from acc [] = [acc]"
| "split_ws_from acc (c # cs) =
     (if is_space c then acc # split_ws_from [] (dropWhile is_space cs)
      else split_ws_from (acc @ [c]) cs)"
  by pat_completeness auto
termination
  by (relation "measure (\<lambda>(acc, rest). length rest)")
     (auto simp: length_dropWhile_le less_Suc_eq_le)

definition split_ws :: "string \<Rightarrow> string list" where
  "split_ws s = split_ws_from [] s"

section \<open>The full-text query sanitizer\<close>

text \<open>
  \<^verbatim>\<open>sanitizeFtsQuery\<close> of the worker: the test \<^verbatim>\<open>/[-*()"]/\<close>, the test
  \<^verbatim>\<open>/^(AND|OR|NOT)$/i\<close>, the replacement \<^verbatim>\<open>replace(/"/g, '""')\<close> and the wrapping
  in double quotes.
\<close>

definition has_fts_special :: "string \<Rightarrow> bool" where
  "has_fts_special t = list_ex (\<lambda>c. c \<in> set [CHR ''-'', CHR ''*'', CHR ''('', CHR '')'', DQ]) t"

definition is_fts_keyword :: "string \<Rightarrow> bool" where
  "is_fts_keyword t = (map to_lower t \<in> set [''and'', ''or'', ''not''])"

definition double_quotes :: "string \<Rightarrow> string" where
  "double_quotes t = concat (map (\<lambda>c. if c = DQ then [DQ, DQ] else [c]) t)"

definition sanitize_term :: "string \<Rightarrow> string" where
  "sanitize_term t =
     (if has_fts_special t \<or> is_fts_keyword t then [DQ] @ double_quotes t @ [DQ] else t)"

definition sanitizeFtsQuery :: "string \<Rightarrow> string" where
  "sanitizeFtsQuery query = join '' '' (map sanitize_term (split_ws query))"

text \<open>
  What the full-text engine reads back: a string literal is a double quote, a body in
  which every double quote is doubled, and a closing double quote; \<open>unquote_body\<close>
  undoes the doubling and fails on a lone double quote.
\<close>

fun unquote_body :: "string \<Rightarrow> string option" where
  "unquote_body [] = Some []"
| "unquote_body [c] = (if c = DQ then None else Some [c])"
| "unquote_body (c # d # r) =
     (if c = DQ then (if d = DQ then map_option (\<lambda>u. DQ # u) (unquote_body r) else None)
      else map_option (\<lambda>u. c # u) (unquote_body (d # r)))"

definition fts_literal :: "string \<Rightarrow> string option" where
  "fts_literal s =
     (if 2 \<le> length s \<and> hd s = DQ \<and> last s = DQ then unquote_body (butlast (tl s)) else None)"

text \<open>
  The white-space runs that \<^const>\<open>split_ws_from\<close> removes, and the string that pieces
  and separators make when they alternate.
\<close>

function ws_runs :: "string \<Rightarrow> string list" where
  "ws_runs [] = []"
| "ws_runs (c # cs) =
     (if is_space c then (c # takeWhile is_space cs) # ws_runs (dropWhile is_space cs)
      else ws_runs cs)"
  by pat_completeness auto
termination
  by (relation "measure length") (auto simp: length_dropWhile_le less_Suc_eq_le)

fun interleave :: "string list \<Rightarrow> string list \<Rightarrow> string" where
  "interleave [] seps = []"
| "interleave (t # ts) [] = t"
| "interleave (t # ts) (s # seps) = t @ s @ interleave ts seps"

section \<open>The hybrid query engine\<close>

text \<open>
  \<^verbatim>\<open>GuideSearchService.mergeResults\<close>. A result carries the fields of the source's
  \<^verbatim>\<open>SearchResult\<close> but the metadata object, which the merge only passes on;
  \<^verbatim>\<open>relevanceScore\<close> is a JavaScript number, modelled as an exact real, and
  \<^verbatim>\<open>limit\<close> as an integer; the field names carry the prefix \<open>res_\<close>. The merge
  tags every result with its source, sorts by the comparator \<^verbatim>\<open>bScore - aScore\<close>
  (the sort of the language is stable; \<open>sort_by\<close> is a stable insertion sort driven
  by the comparator), and walks the sorted list with the set of keys seen so far.
\<close>

datatype source = Keyword | Semantic

record SearchResult =
  res_guideId :: string
  res_sectionId :: string
  res_title :: string
  res_excerpt :: string
  res_relevanceScore :: real
  res_url :: string

record TaggedResult = SearchResult +
  res_source :: source

definition tag :: "source \<Rightarrow> SearchResult \<Rightarrow> TaggedResult" where
  "tag src r = SearchResult.extend r \<lparr>res_source = src\<rparr>"

definition boosted :: "TaggedResult \<Rightarrow> real" where
  "boosted r = res_relevanceScore r * (if res_source r = Keyword then 11 / 10 else 1)"

definition compare_results :: "TaggedResult \<Rightarrow> TaggedResult \<Rightarrow> real" where
  "compare_results a b = boosted b - boosted a"

fun insert_by :: "('a \<Rightarrow> 'a \<Rightarrow> real) \<Rightarrow> 'a \<Rightarrow> 'a list \<Rightarrow> 'a list" where
  "insert_by cmp x [] = [x]"
| "insert_by cmp x (y # ys) = (if cmp x y \<le> 0 then x # y # ys else y # insert_by cmp x ys)"

definition sort_by :: "('a \<Rightarrow> 'a \<Rightarrow> real) \<Rightarrow> 'a list \<Rightarrow> 'a list" where
  "sort_by cmp xs = foldr (insert_by cmp) xs []"

definition allResults :: "SearchResult list \<Rightarrow> SearchResult list \<Rightarrow> TaggedResult list" where
  "allResults keywordResults semanticResults =
     sort_by compare_results (map (tag Keyword) keywordResults @ map (tag Semantic) semanticResults)"

definition dedup_key :: "TaggedResult \<Rightarrow> string" where
  "dedup_key r = res_guideId r @ ''-'' @ res_sectionId r"

fun merge_loop :: "int \<Rightarrow> string set \<Rightarrow> TaggedResult list \<Rightarrow> TaggedResult list \<Rightarrow> TaggedResult list" where
  "merge_loop limit seen merged [] = merged"
| "merge_loop limit seen merged (r # rs) =
     (if dedup_key r \<notin> seen \<and> int (length merged) < limit
      then merge_loop limit (insert (dedup_key r) seen) (merged @ [r]) rs
      else merge_loop limit seen merged rs)"

definition mergeResults :: "SearchResult list \<Rightarrow> SearchResult list \<Rightarrow> int \<Rightarrow> TaggedResult list" where
  "mergeResults keywordResults semanticResults limit =
     merge_loop limit {} [] (allResults keywordResults semanticResults)"

definition search :: "SearchResult list \<Rightarrow> SearchResult list \<Rightarrow> int option \<Rightarrow> TaggedResult list" where
  "search keywordResults semanticResults query_limit =
     mergeResults keywordResults semanticResults
       (case query_limit of None \<Rightarrow> 5 | Some l \<Rightarrow> if l = 0 then 5 else l)"



section \<open>The section splitters\<close>

text \<open>Decimal text of a natural number, as a template literal prints it.\<close>

fun show_nat :: "nat \<Rightarrow> string" where
  "show_nat n = (if n < 10 then [''0123456789'' ! n]
                 else show_nat (n div 10) @ [''0123456789'' ! (n mod 10)])"

declare show_nat.simps [simp del]

text \<open>
  \<^verbatim>\<open>String.prototype.trim\<close>, and the text of a list of lines when every line ends
  with a newline.
\<close>

definition trim :: "string \<Rightarrow> string" where
  "trim s = rev (dropWhile is_space (rev (dropWhile is_space s)))"

definition unlines :: "string list \<Rightarrow> string" where
  "unlines ls = concat (map (\<lambda>l. l @ [NL]) ls)"

text \<open>
  The heading test \<^verbatim>\<open>line.match(/^(#{1,6})\s+(.+)$/)\<close> of both splitters, with the
  heading level and the title it captures. The run of \<^verbatim>\<open>#\<close> is the whole run at the
  start of the line, and it has one to six characters; white space follows; the title
  is what follows the longest run of white space, must not be empty and holds no line
  terminator. When only white space follows the marks, the matcher gives the last
  white-space character back to the title.
\<close>

definition match_header :: "string \<Rightarrow> (nat \<times> string) option" where
  "match_header line =
     (let hashes = takeWhile (\<lambda>c. c = CHR ''#'') line;
          rest = dropWhile (\<lambda>c. c = CHR ''#'') line;
          ws = takeWhile is_space rest;
          text = dropWhile is_space rest
      in if length hashes < 1 \<or> 6 < length hashes \<or> ws = [] then None
         else if text \<noteq> [] then
           (if list_ex is_line_terminator text then None else Some (length hashes, text))
         else if 2 \<le> length ws \<and> \<not> is_line_terminator (last ws)
           then Some (length hashes, [last ws])
         else None)"

text \<open>
  \<^verbatim>\<open>parseMarkdown\<close> of \<^verbatim>\<open>src/guide-processor/index.ts\<close>. The loop state is the list
  of finished sections, the section being read, and the line counter; line numbers
  start at 1.
\<close>

record SectionRow =
  sr_id :: string
  sr_level :: nat
  sr_title :: string
  sr_content :: string
  sr_start_line :: nat
  sr_end_line :: nat

fun close_section :: "SectionRow list \<Rightarrow> SectionRow option \<Rightarrow> nat \<Rightarrow> SectionRow list" where
  "close_section sections None e = sections"
| "close_section sections (Some cur) e = sections @ [cur\<lparr>sr_end_line := e\<rparr>]"

fun parse_loop ::
  "string list \<Rightarrow> SectionRow list \<Rightarrow> SectionRow option \<Rightarrow> nat \<Rightarrow> SectionRow list" where
  "parse_loop [] sections currentSection lineNum = close_section sections currentSection lineNum"
| "parse_loop (line # lines) sections currentSection lineNum0 =
     (let lineNum = lineNum0 + 1 in
      case match_header line of
        Some (level, heading) \<Rightarrow>
          (let sections' = close_section sections currentSection (lineNum - 1) in
           parse_loop lines sections'
             (Some \<lparr>sr_id = ''section-'' @ show_nat (length sections' + 1), sr_level = level,
                    sr_title = heading, sr_content = [], sr_start_line = lineNum,
                    sr_end_line = lineNum\<rparr>) lineNum)
      | None \<Rightarrow>
          (case currentSection of
             Some cur \<Rightarrow>
               parse_loop lines sections (Some (cur\<lparr>sr_content := sr_content cur @ line @ [NL]\<rparr>)) lineNum
           | None \<Rightarrow> parse_loop lines sections None lineNum))"

definition parseMarkdown :: "string \<Rightarrow> SectionRow list" where
  "parseMarkdown markdown = parse_loop (split [NL] markdown) [] None 0"

text \<open>
  \<^verbatim>\<open>GuideParser.extractSections\<close> of \<^verbatim>\<open>docs/guide-processor.ts\<close>, with
  \<^verbatim>\<open>generateSectionId\<close> and \<^verbatim>\<open>extractCodeBlock\<close>. Line indices start at 0; the
  content of a section is the trimmed join of its lines. The fields of the three
  records carry a prefix, since a field name is a constant of the theory.
\<close>

record CodeBlock =
  cb_language :: string
  cb_code :: string

record Section =
  s_id :: string
  s_level :: nat
  s_title :: string
  s_content :: string
  s_codeBlocks :: "CodeBlock list"
  s_startLine :: nat
  s_endLine :: nat

record OpenSection =
  o_id :: string
  o_level :: nat
  o_title :: string
  o_startLine :: nat

definition is_slug_char :: "char \<Rightarrow> bool" where
  "is_slug_char c = (c \<in> set ''abcdefghijklmnopqrstuvwxyz0123456789'')"

function dash_runs :: "string \<Rightarrow> string" where
  "dash_runs [] = []"
| "dash_runs (c # cs) =
     (if is_slug_char c then c # dash_runs cs
      else CHR ''-'' # dash_runs (dropWhile (\<lambda>d. \<not> is_slug_char d) cs))"
  by pat_completeness auto
termination
  by (relation "measure length") (auto simp: length_dropWhile_le less_Suc_eq_le)

definition strip_dashes :: "string \<Rightarrow> string" where
  "strip_dashes s =
     (let s1 = (case s of [] \<Rightarrow> [] | c # cs \<Rightarrow> if c = CHR ''-'' then cs else s)
      in if s1 \<noteq> [] \<and> last s1 = CHR ''-'' then butlast s1 else s1)"

definition generateSectionId :: "string \<Rightarrow> string" where
  "generateSectionId heading = strip_dashes (dash_runs (map to_lower heading))"

definition is_word_char :: "char \<Rightarrow> bool" where
  "is_word_char c =
     (c \<in> set ''abcdefghijklmnopqrstuvwxyzABCDEFGHIJKLMNOPQRSTUVWXYZ0123456789_'')"

definition extractCodeBlock :: "string \<Rightarrow> string list \<Rightarrow> CodeBlock option" where
  "extractCodeBlock startLine following =
     (let lang = takeWhile is_word_char (drop 3 startLine)
      in if \<not> prefix ''```'' startLine \<or> lang = [] then None
         else Some \<lparr>cb_language = lang,
                    cb_code = join [NL] (takeWhile (\<lambda>l. \<not> prefix ''```'' l) following)\<rparr>)"

definition finish_section :: "OpenSection \<Rightarrow> string list \<Rightarrow> CodeBlock list \<Rightarrow> nat \<Rightarrow> Section" where
  "finish_section cur sectionContent sectionCodeBlocks e =
     \<lparr>s_id = o_id cur, s_level = o_level cur, s_title = o_title cur,
      s_content = trim (join [NL] sectionContent), s_codeBlocks = sectionCodeBlocks,
      s_startLine = o_startLine cur, s_endLine = e\<rparr>"

fun save_section ::
  "Section list \<Rightarrow> OpenSection option \<Rightarrow> string list \<Rightarrow> CodeBlock list \<Rightarrow> nat \<Rightarrow> Section list" where
  "save_section sections None sectionContent sectionCodeBlocks e = sections"
| "save_section sections (Some cur) sectionContent sectionCodeBlocks e =
     sections @ [finish_section cur sectionContent sectionCodeBlocks e]"

fun extract_loop ::
  "string list \<Rightarrow> nat \<Rightarrow> Section list \<Rightarrow> OpenSection option \<Rightarrow> string list \<Rightarrow> CodeBlock list
   \<Rightarrow> Section list" where
  "extract_loop [] i sections currentSection sectionContent sectionCodeBlocks =
     save_section sections currentSection sectionContent sectionCodeBlocks (i - 1)"
| "extract_loop (line # lines) i sections currentSection sectionContent sectionCodeBlocks =
     (case match_header line of
        Some (level, heading) \<Rightarrow>
          extract_loop lines (i + 1)
            (save_section sections currentSection sectionContent sectionCodeBlocks (i - 1))
            (Some \<lparr>o_id = generateSectionId heading, o_level = level, o_title = heading,
                   o_startLine = i\<rparr>) [] []
      | None \<Rightarrow>
          extract_loop lines (i + 1) sections currentSection (sectionContent @ [line])
            (if prefix ''```'' line
             then (case extractCodeBlock line lines of
                     Some codeBlock \<Rightarrow> sectionCodeBlocks @ [codeBlock]
                   | None \<Rightarrow> sectionCodeBlocks)
             else sectionCodeBlocks))"

definition extractSections :: "string \<Rightarrow> Section list" where
  "extractSections content = extract_loop (split [NL] content) 0 [] None [] []"

text \<open>
  The lines of a body grouped by heading: for every heading line, the lines between
  it and the next heading (or the end).
\<close>

definition is_header :: "string \<Rightarrow> bool" where
  "is_header line = (match_header line \<noteq> None)"

fun groups_after :: "string list \<Rightarrow> string list \<Rightarrow> string list list" where
  "groups_after g [] = [g]"
| "groups_after g (l # ls) =
     (if is_header l then g # groups_after [] ls else groups_after (g @ [l]) ls)"

definition line_groups :: "string list \<Rightarrow> string list list" where
  "line_groups ls =
     (case dropWhile (\<lambda>l. \<not> is_header l) ls of [] \<Rightarrow> [] | h # rest \<Rightarrow> groups_after [] rest)"

section \<open>The chunker\<close>

text \<open>
  \<^verbatim>\<open>GuideParser.createChunks\<close> and \<^verbatim>\<open>GuideParser.splitLargeSection\<close> of
  \<^verbatim>\<open>docs/guide-processor.ts\<close>. The category of a guide is a string or an array of
  strings; the token estimate is \<^verbatim>\<open>Math.ceil(text.length / 4)\<close>.
\<close>

datatype category = One string | Many "string list"

record GuideMetadata =
  m_id :: string
  m_title :: string
  m_category :: category
  m_subcategory :: "string option"
  m_type :: string
  m_status :: string
  m_version :: string
  m_last_updated :: string
  m_languages :: "string list option"
  m_frameworks :: "string list option"
  m_platforms :: "string list option"
  m_tags :: "string list"
  m_related_guides :: "string list option"

record ChunkMetadata =
  cm_category :: "string option"
  cm_subcategory :: "string option"
  cm_framework :: "string option"
  cm_language :: "string option"
  cm_tags :: "string list"

record Chunk =
  c_id :: string
  c_guideId :: string
  c_sectionId :: string
  c_text :: string
  c_tokens :: nat
  c_metadata :: ChunkMetadata

definition estimateTokens :: "string \<Rightarrow> nat" where
  "estimateTokens text = (length text + 3) div 4"

definition detectFramework :: "string \<Rightarrow> string option" where
  "detectFramework content =
     find (\<lambda>fw. sublist fw (map to_lower content)) [''qwik'', ''react'', ''vue'', ''angular'', ''svelte'']"

definition detectLanguage :: "string \<Rightarrow> string option" where
  "detectLanguage content =
     find (\<lambda>lang. sublist lang (map to_lower content))
       [''typescript'', ''javascript'', ''python'', ''go'', ''sql'']"

definition category_text :: "category \<Rightarrow> string" where
  "category_text c = (case c of Many cs \<Rightarrow> join '', '' cs | One s \<Rightarrow> s)"

definition category_first :: "category \<Rightarrow> string option" where
  "category_first c = (case c of Many [] \<Rightarrow> None | Many (x # xs) \<Rightarrow> Some x | One s \<Rightarrow> Some s)"

definition chunk_metadata :: "GuideMetadata \<Rightarrow> Section \<Rightarrow> ChunkMetadata" where
  "chunk_metadata metadata section =
     \<lparr>cm_category = category_first (m_category metadata),
      cm_subcategory = m_subcategory metadata,
      cm_framework = detectFramework (s_content section),
      cm_language = detectLanguage (s_content section),
      cm_tags = m_tags metadata\<rparr>"

text \<open>
  The chunk that \<^verbatim>\<open>splitLargeSection\<close> pushes for the array \<open>currentChunk\<close>, and the
  two arrays a chunk starts from. The loop state is the list of chunks pushed so far,
  the array being filled, and the chunk index.
\<close>

definition split_chunk :: "GuideMetadata \<Rightarrow> Section \<Rightarrow> nat \<Rightarrow> string list \<Rightarrow> Chunk" where
  "split_chunk metadata section chunkIndex currentChunk =
     \<lparr>c_id = m_id metadata @ ''-'' @ s_id section @ ''-'' @ show_nat chunkIndex,
      c_guideId = m_id metadata,
      c_sectionId = s_id section,
      c_text = join [NL, NL] currentChunk,
      c_tokens = estimateTokens (join [NL, NL] currentChunk),
      c_metadata = chunk_metadata metadata section\<rparr>"

definition first_header :: "GuideMetadata \<Rightarrow> Section \<Rightarrow> string list" where
  "first_header metadata section =
     [''# '' @ m_title metadata, ''Section: '' @ s_title section, []]"

definition continued_header :: "GuideMetadata \<Rightarrow> Section \<Rightarrow> string list" where
  "continued_header metadata section =
     [''# '' @ m_title metadata, ''Section: '' @ s_title section @ '' (continued)'', []]"

fun split_loop ::
  "GuideMetadata \<Rightarrow> Section \<Rightarrow> string list \<Rightarrow> Chunk list \<Rightarrow> string list \<Rightarrow> nat \<Rightarrow> Chunk list" where
  "split_loop metadata section [] chunks currentChunk chunkIndex =
     (if length currentChunk > 3
      then chunks @ [split_chunk metadata section chunkIndex currentChunk]
      else chunks)"
| "split_loop metadata section (paragraph # paragraphs) chunks currentChunk chunkIndex =
     (if estimateTokens (join [NL, NL] (currentChunk @ [paragraph])) > 1000
      then split_loop metadata section paragraphs
             (chunks @ [split_chunk metadata section chunkIndex currentChunk])
             (continued_header metadata section @ [paragraph]) (chunkIndex + 1)
      else split_loop metadata section paragraphs chunks (currentChunk @ [paragraph]) chunkIndex)"

definition splitLargeSection :: "GuideMetadata \<Rightarrow> Section \<Rightarrow> Chunk list" where
  "splitLargeSection metadata section =
     split_loop metadata section (split [NL, NL] (s_content section)) []
       (first_header metadata section) 0"

definition chunkText :: "GuideMetadata \<Rightarrow> Section \<Rightarrow> string" where
  "chunkText metadata section =
     join [NL] [''# '' @ m_title metadata,
                ''Category: '' @ category_text (m_category metadata),
                ''Section: '' @ s_title section,
                [],
                s_content section]"

fun createChunks :: "GuideMetadata \<Rightarrow> Section list \<Rightarrow> Chunk list" where
  "createChunks metadata [] = []"
| "createChunks metadata (section # sections) =
     (if length (s_content section) < 100 then createChunks metadata sections
      else if estimateTokens (chunkText metadata section) > 1000
        then splitLargeSection metadata section @ createChunks metadata sections
      else \<lparr>c_id = m_id metadata @ ''-'' @ s_id section,
             c_guideId = m_id metadata,
             c_sectionId = s_id section,
             c_text = chunkText metadata section,
             c_tokens = estimateTokens (chunkText metadata section),
             c_metadata = chunk_metadata metadata section\<rparr> # createChunks metadata sections)"

text \<open>
  The paragraphs of every pushed array, next to the header the array starts with:
  the same walk as \<^const>\<open>split_loop\<close>, keeping header and paragraphs apart.
\<close>

fun split_groups ::
  "GuideMetadata \<Rightarrow> Section \<Rightarrow> string list \<Rightarrow> string list \<Rightarrow> string list
   \<Rightarrow> (string list \<times> string list) list" where
  "split_groups metadata section header g [] = (if g \<noteq> [] then [(header, g)] else [])"
| "split_groups metadata section header g (paragraph # paragraphs) =
     (if estimateTokens (join [NL, NL] (header @ g @ [paragraph])) > 1000
      then (header, g) # split_groups metadata section (continued_header metadata section)
                           [paragraph] paragraphs
      else split_groups metadata section header (g @ [paragraph]) paragraphs)"

definition paragraph_groups :: "GuideMetadata \<Rightarrow> Section \<Rightarrow> (string list \<times> string list) list" where
  "paragraph_groups metadata section =
     split_groups metadata section (first_header metadata section) []
       (split [NL, NL] (s_content section))"

section \<open>The indexing coordinators\<close>




text \<open>
  The three stores. The relational store has the tables \<^verbatim>\<open>guides\<close>, \<^verbatim>\<open>sections\<close>,
  \<^verbatim>\<open>code_examples\<close> and \<^verbatim>\<open>guides_fts\<close>, each a list of rows; the object store is a list
  of keys with their bodies; the vector index is a list of vectors. \<open>upsert\<close> is
  \<^verbatim>\<open>INSERT ... ON CONFLICT(id) DO UPDATE\<close> and the \<^verbatim>\<open>put\<close> of the object store: the
  row with the key is replaced where it is, a new row goes to the end.
\<close>

record GuideRow =
  g_id :: string
  g_title :: string
  g_category :: string
  g_subcategory :: "string option"
  g_type :: string
  g_status :: string
  g_version :: string
  g_last_updated :: string
  g_tags :: string
  g_related_guides :: "string option"
  g_markdown_url :: string

record StoredSection =
  ss_id :: string
  ss_guide_id :: string
  ss_level :: nat
  ss_title :: string
  ss_content :: string
  ss_start_line :: nat
  ss_end_line :: nat

record CodeExampleRow =
  ce_id :: string
  ce_guide_id :: string
  ce_section_id :: string
  ce_language :: string
  ce_code :: string
  ce_caption :: "string option"

record FtsRow =
  f_guide_id :: string
  f_title :: string
  f_content :: string
  f_tags :: string

record VectorRow =
  v_id :: string
  v_namespace :: string
  v_values :: string
  v_text :: string
  v_metadata :: ChunkMetadata

record Stores =
  st_r2 :: "(string \<times> string) list"
  st_guides :: "GuideRow list"
  st_sections :: "StoredSection list"
  st_code_examples :: "CodeExampleRow list"
  st_guides_fts :: "FtsRow list"
  st_vectors :: "VectorRow list"









































section \<open>The guide assembler\<close>

text \<open>
  The route \<^verbatim>\<open>/tools/get_guide\<close> of the worker: a request without a guide id is
  answered with status 400, an unknown guide with 404, a stored list that
  \<^verbatim>\<open>JSON.parse\<close> (a parameter) rejects with 500 and the message of the error. The
  sections come in the order of \<^verbatim>\<open>start_line\<close>; the body is left out when a section
  id is given. \<open>truthy\<close> is the test \<^verbatim>\<open>if (x)\<close> on an optional string.
\<close>

datatype 'a response = Failure nat string | Success 'a

record GuideView =
  gv_guide :: GuideRow
  gv_tags :: "string list"
  gv_related_guides :: "string list"
  gv_sections :: "StoredSection list"
  gv_markdown :: "string option"

definition truthy :: "string option \<Rightarrow> bool" where
  "truthy v = (case v of None \<Rightarrow> False | Some x \<Rightarrow> x \<noteq> [])"

definition get_guide ::
  "(string \<Rightarrow> string + string list) \<Rightarrow> Stores \<Rightarrow> string option \<Rightarrow> string option
   \<Rightarrow> GuideView response" where
  "get_guide json_parse stores guideId sectionId =
     (if \<not> truthy guideId then Failure 400 ''guideId parameter is required''
      else case find (\<lambda>g. Some (g_id g) = guideId) (st_guides stores) of
        None \<Rightarrow> Failure 404 ''Guide not found''
      | Some guide \<Rightarrow>
          (let secs = sort_key ss_start_line
                 (filter (\<lambda>s. Some (ss_guide_id s) = guideId
                              \<and> (if truthy sectionId then Some (ss_id s) = sectionId else True))
                    (st_sections stores));
               markdown = map_of (st_r2 stores) (g_markdown_url guide)
           in case json_parse (if g_tags guide = [] then ''[]'' else g_tags guide) of
                Inl message \<Rightarrow> Failure 500 message
              | Inr tags \<Rightarrow>
                  (case (if truthy (g_related_guides guide)
                         then json_parse (the (g_related_guides guide)) else Inr []) of
                     Inl message \<Rightarrow> Failure 500 message
                   | Inr related \<Rightarrow>
                       Success \<lparr>gv_guide = guide, gv_tags = tags, gv_related_guides = related,
                                gv_sections = secs,
                                gv_markdown = (if truthy sectionId then None else markdown)\<rparr>)))"

text \<open>
  \<^verbatim>\<open>GuideSearchService.getGuide\<close> and its route: null, answered with status 404,
  for an unknown guide; otherwise the guide with its sections and the body read from
  the object store, the empty string when there is none.
\<close>

record GuideSection =
  gs_id :: string
  gs_title :: string
  gs_content :: string
  gs_codeExamples :: "CodeBlock list"

record Guide =
  gd_id :: string
  gd_title :: string
  gd_category :: string
  gd_sections :: "GuideSection list"
  gd_relatedGuides :: "string list"
  gd_markdown :: string

definition getGuide :: "Stores \<Rightarrow> string \<Rightarrow> string option \<Rightarrow> Guide option" where
  "getGuide stores guideId sectionId =
     (case find (\<lambda>g. g_id g = guideId) (st_guides stores) of
        None \<Rightarrow> None
      | Some metadata \<Rightarrow>
          (let secs = filter (\<lambda>s. ss_guide_id s = guideId
                              \<and> (if truthy sectionId then Some (ss_id s) = sectionId else True))
                        (st_sections stores);
               markdown = (case map_of (st_r2 stores) (g_markdown_url metadata) of
                             Some body \<Rightarrow> body | None \<Rightarrow> [])
           in Some \<lparr>gd_id = g_id metadata, gd_title = g_title metadata,
                    gd_category = g_category metadata,
                    gd_sections = map (\<lambda>s. \<lparr>gs_id = ss_id s, gs_title = ss_title s,
                                             gs_content = ss_content s, gs_codeExamples = []\<rparr>) secs,
                    gd_relatedGuides = (case g_related_guides metadata of
                                          None \<Rightarrow> [] | Some r \<Rightarrow> split '','' r),
                    gd_markdown = markdown\<rparr>))"

definition get_guide_service :: "Stores \<Rightarrow> string \<Rightarrow> string option \<Rightarrow> Guide response" where
  "get_guide_service stores guideId sectionId =
     (case getGuide stores guideId sectionId of
        None \<Rightarrow> Failure 404 ''Guide not found''
      | Some guide \<Rightarrow> Success guide)"

section \<open>Properties of the sanitizer\<close>

lemma split_ws_from_length: "length (split_ws_from acc s) = Suc (length (ws_runs s))"
  by (induction acc s rule: split_ws_from.induct) simp_all

lemma split_ws_from_interleave: "interleave (split_ws_from acc s) (ws_runs s) = acc @ s"
proof (induction acc s rule: split_ws_from.induct)
  case (1 acc)
  show ?case by simp
next
  case (2 acc c cs)
  show ?case
  proof (cases "is_space c")
    case True
    have "interleave (split_ws_from [] (dropWhile is_space cs)) (ws_runs (dropWhile is_space cs))
          = dropWhile is_space cs"
      using 2(1) [OF True] by simp
    then show ?thesis using True by simp
  next
    case False
    then show ?thesis using 2(2) by simp
  qed
qed

lemma ws_runs_spaces: "r \<in> set (ws_runs s) \<Longrightarrow> r \<noteq> [] \<and> list_all is_space r"
proof (induction s arbitrary: r rule: ws_runs.induct)
  case 1
  then show ?case by simp
next
  case (2 c cs)
  show ?case
  proof (cases "is_space c")
    case True
    with 2 show ?thesis
      by (auto simp: list_all_iff dest: set_takeWhileD)
  next
    case False
    with 2 show ?thesis by simp
  qed
qed

lemma split_ws_from_no_space:
  "\<not> list_ex is_space acc \<Longrightarrow> t \<in> set (split_ws_from acc s) \<Longrightarrow> \<not> list_ex is_space t"
proof (induction acc s arbitrary: t rule: split_ws_from.induct)
  case (1 acc)
  then show ?case by simp
next
  case (2 acc c cs)
  show ?case
  proof (cases "is_space c")
    case True
    with 2(1) [OF True, of t] 2(3,4) show ?thesis by auto
  next
    case False
    with 2(2) [OF False, of t] 2(3,4) show ?thesis by (auto simp: list_ex_iff)
  qed
qed

lemma unquote_body_double_quotes: "unquote_body (double_quotes t) = Some t"
proof (induction t)
  case Nil
  show ?case by (simp add: double_quotes_def)
next
  case (Cons c t)
  show ?case
  proof (cases "c = DQ")
    case True
    with Cons show ?thesis by (simp add: double_quotes_def)
  next
    case False
    with Cons show ?thesis
      by (cases "concat (map (\<lambda>c. if c = DQ then [DQ, DQ] else [c]) t)")
         (simp_all add: double_quotes_def)
  qed
qed

lemma fts_literal_quoted: "fts_literal ([DQ] @ double_quotes t @ [DQ]) = Some t"
  by (simp add: fts_literal_def unquote_body_double_quotes butlast_append)

lemma to_lower_cases:
  "to_lower c = CHR ''a'' \<longleftrightarrow> c = CHR ''a'' \<or> c = CHR ''A''"
  "to_lower c = CHR ''n'' \<longleftrightarrow> c = CHR ''n'' \<or> c = CHR ''N''"
  "to_lower c = CHR ''d'' \<longleftrightarrow> c = CHR ''d'' \<or> c = CHR ''D''"
  "to_lower c = CHR ''o'' \<longleftrightarrow> c = CHR ''o'' \<or> c = CHR ''O''"
  "to_lower c = CHR ''r'' \<longleftrightarrow> c = CHR ''r'' \<or> c = CHR ''R''"
  "to_lower c = CHR ''t'' \<longleftrightarrow> c = CHR ''t'' \<or> c = CHR ''T''"
  by (auto simp: to_lower_def upper_letters_def lower_letters_def split: if_splits)

lemma map_eq_2: "map f t = [x, y] \<longleftrightarrow> (\<exists>a b. t = [a, b] \<and> f a = x \<and> f b = y)"
  by (cases t; cases "tl t"; cases "tl (tl t)") auto

lemma map_eq_3: "map f t = [x, y, z] \<longleftrightarrow> (\<exists>a b c. t = [a, b, c] \<and> f a = x \<and> f b = y \<and> f c = z)"
  by (cases t; cases "tl t"; cases "tl (tl t)"; cases "tl (tl (tl t))") auto

lemma lower_and:
  "map to_lower t = ''and'' \<longleftrightarrow>
     t \<in> set [''AND'', ''ANd'', ''AnD'', ''And'', ''aND'', ''aNd'', ''anD'', ''and'']"
  unfolding map_eq_3 to_lower_cases by auto

lemma lower_or:
  "map to_lower t = ''or'' \<longleftrightarrow> t \<in> set [''OR'', ''Or'', ''oR'', ''or'']"
  unfolding map_eq_2 to_lower_cases by auto

lemma lower_not:
  "map to_lower t = ''not'' \<longleftrightarrow>
     t \<in> set [''NOT'', ''NOt'', ''NoT'', ''Not'', ''nOT'', ''nOt'', ''noT'', ''not'']"
  unfolding map_eq_3 to_lower_cases by auto

lemma is_fts_keyword_spellings:
  "is_fts_keyword t \<longleftrightarrow>
     t \<in> set [''AND'', ''ANd'', ''AnD'', ''And'', ''aND'', ''aNd'', ''anD'', ''and'',
              ''OR'', ''Or'', ''oR'', ''or'',
              ''NOT'', ''NOt'', ''NoT'', ''Not'', ''nOT'', ''nOt'', ''noT'', ''not'']"
proof -
  have "is_fts_keyword t \<longleftrightarrow>
          map to_lower t = ''and'' \<or> map to_lower t = ''or'' \<or> map to_lower t = ''not''"
    by (simp add: is_fts_keyword_def)
  also have "\<dots> \<longleftrightarrow> t \<in> set [''AND'', ''ANd'', ''AnD'', ''And'', ''aND'', ''aNd'', ''anD'', ''and'']
      \<or> t \<in> set [''OR'', ''Or'', ''oR'', ''or'']
      \<or> t \<in> set [''NOT'', ''NOt'', ''NoT'', ''Not'', ''nOT'', ''nOt'', ''noT'', ''not'']"
    unfolding lower_and lower_or lower_not by (rule refl)
  also have "\<dots> \<longleftrightarrow> t \<in> set [''AND'', ''ANd'', ''AnD'', ''And'', ''aND'', ''aNd'', ''anD'', ''and'',
              ''OR'', ''Or'', ''oR'', ''or'',
              ''NOT'', ''NOt'', ''NoT'', ''Not'', ''nOT'', ''nOt'', ''noT'', ''not'']"
    by (simp only: set_simps insert_iff empty_iff disj_assoc simp_thms)
  finally show ?thesis .
qed

lemma has_fts_special_chars:
  "has_fts_special t \<longleftrightarrow>
     (\<exists>c \<in> set t. c \<in> {CHR ''-'', CHR ''*'', CHR ''('', CHR '')'', CHR 0x22})"
  by (auto simp: has_fts_special_def list_ex_iff DQ_def)

lemma is_space_chars:
  "is_space c \<longleftrightarrow> c \<in> {CHR 0x09, CHR 0x0A, CHR 0x0B, CHR 0x0C, CHR 0x0D, CHR 0x20, CHR 0xA0}"
  by (simp add: is_space_def)

lemma split_ws_from_hd:
  "hd (split_ws_from acc s) = acc @ takeWhile (\<lambda>c. \<not> is_space c) s"
  by (induction acc s rule: split_ws_from.induct) simp_all

lemma split_ws_from_inner:
  "0 < i \<Longrightarrow> Suc i < length (split_ws_from acc s) \<Longrightarrow> split_ws_from acc s ! i \<noteq> []"
proof (induction acc s arbitrary: i rule: split_ws_from.induct)
  case (1 acc)
  then show ?case by simp
next
  case (2 acc c cs)
  show ?case
  proof (cases "is_space c")
    case True
    let ?r = "dropWhile is_space cs"
    let ?ps = "split_ws_from [] ?r"
    from 2(3) obtain j where j: "i = Suc j" by (cases i) auto
    have len: "Suc j < length ?ps" using 2(4) True j by simp
    have e: "split_ws_from acc (c # cs) ! i = ?ps ! j" using True j by simp
    show ?thesis
    proof (cases j)
      case 0
      have "?r \<noteq> []" using len by (cases ?r) auto
      then obtain d ds where d: "?r = d # ds" by (cases ?r) auto
      then have "\<not> is_space d" using hd_dropWhile [of is_space cs] by auto
      then have "hd ?ps \<noteq> []" unfolding split_ws_from_hd d by simp
      moreover have "?ps ! 0 = hd ?ps" using len by (cases ?ps) auto
      ultimately show ?thesis using e 0 by simp
    next
      case (Suc k)
      then show ?thesis using 2(1) [OF True, of j] len e by simp
    qed
  next
    case False
    then show ?thesis using 2(2) [OF False, of i] 2(3,4) by simp
  qed
qed

text \<open>
  Claim C10. The sanitizer splits the query at white space: the pieces hold no
  white-space character, no piece but the first and the last is empty, and the pieces
  put back between runs of white space give the query. A piece that holds a hyphen, an
  asterisk, a parenthesis or a double quote, or that is AND, OR or NOT in any spelling
  of capitals and small letters, becomes a double quote, the piece with every double
  quote doubled, and a double quote; every other piece stays as it is; the pieces are
  joined with single spaces. The engine reads a quoted piece back as the piece
  (\<^const>\<open>fts_literal\<close>).
\<close>

theorem sanitizeFtsQuery_quotes_special_terms:
  "sanitizeFtsQuery q =
     join '' ''
       (map (\<lambda>t. if (\<exists>c \<in> set t. c \<in> {CHR ''-'', CHR ''*'', CHR ''('', CHR '')'', CHR 0x22})
                    \<or> t \<in> {''AND'', ''ANd'', ''AnD'', ''And'', ''aND'', ''aNd'', ''anD'', ''and'',
                             ''OR'', ''Or'', ''oR'', ''or'',
                             ''NOT'', ''NOt'', ''NoT'', ''Not'', ''nOT'', ''nOt'', ''noT'', ''not''}
                  then [CHR 0x22]
                       @ concat (map (\<lambda>c. if c = CHR 0x22 then [CHR 0x22, CHR 0x22] else [c]) t)
                       @ [CHR 0x22]
                  else t)
            (split_ws q))
   \<and> (\<exists>runs. length (split_ws q) = Suc (length runs)
         \<and> (\<forall>r \<in> set runs. r \<noteq> []
               \<and> set r \<subseteq> {CHR 0x09, CHR 0x0A, CHR 0x0B, CHR 0x0C, CHR 0x0D, CHR 0x20, CHR 0xA0})
         \<and> interleave (split_ws q) runs = q)
   \<and> (\<forall>t \<in> set (split_ws q).
         \<forall>c \<in> set t. c \<notin> {CHR 0x09, CHR 0x0A, CHR 0x0B, CHR 0x0C, CHR 0x0D, CHR 0x20, CHR 0xA0})
   \<and> (\<forall>i. 0 < i \<and> Suc i < length (split_ws q) \<longrightarrow> split_ws q ! i \<noteq> [])
   \<and> (\<forall>t. fts_literal
              ([CHR 0x22]
               @ concat (map (\<lambda>c. if c = CHR 0x22 then [CHR 0x22, CHR 0x22] else [c]) t)
               @ [CHR 0x22]) = Some t)"
proof -
  have a: "sanitizeFtsQuery q =
     join '' ''
       (map (\<lambda>t. if (\<exists>c \<in> set t. c \<in> {CHR ''-'', CHR ''*'', CHR ''('', CHR '')'', CHR 0x22})
                    \<or> t \<in> {''AND'', ''ANd'', ''AnD'', ''And'', ''aND'', ''aNd'', ''anD'', ''and'',
                             ''OR'', ''Or'', ''oR'', ''or'',
                             ''NOT'', ''NOt'', ''NoT'', ''Not'', ''nOT'', ''nOt'', ''noT'', ''not''}
                  then [CHR 0x22]
                       @ concat (map (\<lambda>c. if c = CHR 0x22 then [CHR 0x22, CHR 0x22] else [c]) t)
                       @ [CHR 0x22]
                  else t)
            (split_ws q))"
    unfolding sanitizeFtsQuery_def sanitize_term_def has_fts_special_chars is_fts_keyword_spellings
      double_quotes_def DQ_def
    by (simp only: set_simps)
  have b: "\<exists>runs. length (split_ws q) = Suc (length runs)
         \<and> (\<forall>r \<in> set runs. r \<noteq> []
               \<and> set r \<subseteq> {CHR 0x09, CHR 0x0A, CHR 0x0B, CHR 0x0C, CHR 0x0D, CHR 0x20, CHR 0xA0})
         \<and> interleave (split_ws q) runs = q"
  proof (intro exI [of _ "ws_runs q"] conjI ballI)
    show "length (split_ws q) = Suc (length (ws_runs q))"
      unfolding split_ws_def by (rule split_ws_from_length)
    show "interleave (split_ws q) (ws_runs q) = q"
      unfolding split_ws_def using split_ws_from_interleave [of "[]" q] by simp
  next
    fix r assume r: "r \<in> set (ws_runs q)"
    from ws_runs_spaces [OF r] show "r \<noteq> []" by simp
    from ws_runs_spaces [OF r]
    show "set r \<subseteq> {CHR 0x09, CHR 0x0A, CHR 0x0B, CHR 0x0C, CHR 0x0D, CHR 0x20, CHR 0xA0}"
      unfolding list_all_iff is_space_chars by blast
  qed
  have c: "\<forall>t \<in> set (split_ws q).
         \<forall>c \<in> set t. c \<notin> {CHR 0x09, CHR 0x0A, CHR 0x0B, CHR 0x0C, CHR 0x0D, CHR 0x20, CHR 0xA0}"
    using split_ws_from_no_space [of "[]" _ q]
    unfolding split_ws_def list_ex_iff is_space_chars by simp
  have d: "\<forall>i. 0 < i \<and> Suc i < length (split_ws q) \<longrightarrow> split_ws q ! i \<noteq> []"
    unfolding split_ws_def using split_ws_from_inner by blast
  have e: "\<forall>t. fts_literal
              ([CHR 0x22]
               @ concat (map (\<lambda>c. if c = CHR 0x22 then [CHR 0x22, CHR 0x22] else [c]) t)
               @ [CHR 0x22]) = Some t"
    using fts_literal_quoted unfolding double_quotes_def DQ_def by blast
  from a b c d e show ?thesis by (intro conjI)
qed


theorem sanitizeFtsQuery_quotes_special_terms_witness:
  "sanitizeFtsQuery ''top-k  AND x''
     = [CHR 0x22] @ ''top-k'' @ [CHR 0x22] @ '' '' @ [CHR 0x22] @ ''AND'' @ [CHR 0x22] @ '' x''
   \<and> split_ws ''top-k  AND x'' = [''top-k'', ''AND'', ''x'']
   \<and> split_ws ''top-k  AND x'' ! 1 \<noteq> []
   \<and> sanitizeFtsQuery (''say '' @ [CHR 0x22] @ ''hi'' @ [CHR 0x22] @ '' nOt (now)'')
     = ''say '' @ [CHR 0x22, CHR 0x22, CHR 0x22] @ ''hi'' @ [CHR 0x22, CHR 0x22, CHR 0x22]
       @ '' '' @ [CHR 0x22] @ ''nOt'' @ [CHR 0x22] @ '' '' @ [CHR 0x22] @ ''(now)'' @ [CHR 0x22]"
proof -
  have s: "split_ws ''top-k  AND x'' = [''top-k'', ''AND'', ''x'']"
    by (simp add: split_ws_def is_space_def)
  have s2: "split_ws (''say '' @ [CHR 0x22] @ ''hi'' @ [CHR 0x22] @ '' nOt (now)'')
            = [''say'', [CHR 0x22] @ ''hi'' @ [CHR 0x22], ''nOt'', ''(now)'']"
    by (simp add: split_ws_def is_space_def)
  note t = sanitizeFtsQuery_quotes_special_terms [of "''top-k  AND x''"]
  note u = sanitizeFtsQuery_quotes_special_terms
    [of "''say '' @ [CHR 0x22] @ ''hi'' @ [CHR 0x22] @ '' nOt (now)''"]
  have a: "sanitizeFtsQuery ''top-k  AND x''
     = [CHR 0x22] @ ''top-k'' @ [CHR 0x22] @ '' '' @ [CHR 0x22] @ ''AND'' @ [CHR 0x22] @ '' x''"
    using t unfolding s by simp
  have "(0::nat) < 1 \<and> Suc 1 < length (split_ws ''top-k  AND x'')" unfolding s by simp
  with t have b: "split_ws ''top-k  AND x'' ! 1 \<noteq> []" by blast
  have c: "sanitizeFtsQuery (''say '' @ [CHR 0x22] @ ''hi'' @ [CHR 0x22] @ '' nOt (now)'')
     = ''say '' @ [CHR 0x22, CHR 0x22, CHR 0x22] @ ''hi'' @ [CHR 0x22, CHR 0x22, CHR 0x22]
       @ '' '' @ [CHR 0x22] @ ''nOt'' @ [CHR 0x22] @ '' '' @ [CHR 0x22] @ ''(now)'' @ [CHR 0x22]"
    using u unfolding s2 by simp
  from a s b c show ?thesis by (intro conjI)
qed

section \<open>Properties of the hybrid query engine\<close>


































section \<open>Properties of the section splitters\<close>

text \<open>Evaluation of the splitters on concrete bodies.\<close>

lemmas section_eval = parseMarkdown_def extractSections_def split_def NL_def match_header_def
  is_space_def is_line_terminator_def show_nat.simps generateSectionId_def strip_dashes_def
  is_slug_char_def to_lower_def upper_letters_def lower_letters_def finish_section_def trim_def extractCodeBlock_def is_word_char_def

lemma join_Cons: "join sep (x # xs) = x @ (if xs = [] then [] else sep @ join sep xs)"
  by (cases xs) simp_all

lemma split_from_nonempty: "split_from sep acc s \<noteq> []"
  by (induction sep acc s rule: split_from.induct) auto

lemma join_split_from: "join sep (split_from sep acc s) = acc @ s"
proof (induction sep acc s rule: split_from.induct)
  case (1 sep acc)
  show ?case by simp
next
  case (2 sep acc c cs)
  show ?case
  proof (cases "sep \<noteq> [] \<and> prefix sep (c # cs)")
    case True
    then obtain r where r: "c # cs = sep @ r" by (auto simp: prefix_def)
    have ne: "split_from sep [] (drop (length sep) (c # cs)) \<noteq> []"
      by (rule split_from_nonempty)
    have "join sep (split_from sep [] (drop (length sep) (c # cs))) = drop (length sep) (c # cs)"
      using 2(1) [OF True] by simp
    then have "join sep (split_from sep acc (c # cs)) = acc @ sep @ drop (length sep) (c # cs)"
      using True ne by (simp add: join_Cons)
    also have "\<dots> = acc @ c # cs" using r by simp
    finally show ?thesis .
  next
    case False
    then show ?thesis using 2(2) by auto
  qed
qed

lemma join_split: "join sep (split sep s) = s"
  by (simp add: split_def join_split_from)

lemma unlines_join: "ls \<noteq> [] \<Longrightarrow> unlines ls = join [NL] ls @ [NL]"
proof (induction ls)
  case Nil
  then show ?case by simp
next
  case (Cons l ls)
  then show ?case by (cases ls) (simp_all add: unlines_def)
qed

lemma unlines_append: "unlines (xs @ ys) = unlines xs @ unlines ys"
  by (simp add: unlines_def)

lemma unlines_split: "unlines (split [NL] body) = body @ [NL]"
  using unlines_join [OF split_from_nonempty, of "[NL]" "[]" body]
  by (simp add: split_def join_split_from)

lemma groups_after_length: "length (groups_after g ls) = Suc (length (filter is_header ls))"
  by (induction ls arbitrary: g) simp_all

lemma groups_after_concat:
  "concat (map (\<lambda>(h, grp). h # grp) (zip (h0 # filter is_header ls) (groups_after g ls)))
   = (h0 # g) @ ls"
  by (induction ls arbitrary: g h0) simp_all

lemma filter_dropWhile_header:
  "filter is_header ls = filter is_header (dropWhile (\<lambda>l. \<not> is_header l) ls)"
  by (induction ls) simp_all

lemma line_groups_length: "length (line_groups ls) = length (filter is_header ls)"
proof (cases "dropWhile (\<lambda>l. \<not> is_header l) ls")
  case Nil
  have "filter is_header ls = []"
    using filter_dropWhile_header [of ls] unfolding Nil by simp
  moreover have "line_groups ls = []"
    unfolding line_groups_def Nil by simp
  ultimately show ?thesis by simp
next
  case (Cons h rest)
  then have "is_header h" using hd_dropWhile [of "\<lambda>l. \<not> is_header l" ls] by auto
  then show ?thesis
    using Cons filter_dropWhile_header [of ls] by (simp add: line_groups_def groups_after_length)
qed

lemma line_groups_concat:
  "concat (map (\<lambda>(h, grp). h # grp) (zip (filter is_header ls) (line_groups ls)))
   = dropWhile (\<lambda>l. \<not> is_header l) ls"
proof (cases "dropWhile (\<lambda>l. \<not> is_header l) ls")
  case Nil
  have "line_groups ls = []"
    unfolding line_groups_def Nil by simp
  then show ?thesis unfolding Nil by simp
next
  case (Cons h rest)
  then have "is_header h" using hd_dropWhile [of "\<lambda>l. \<not> is_header l" ls] by auto
  then have "filter is_header ls = h # filter is_header rest"
    using Cons filter_dropWhile_header [of ls] by simp
  then show ?thesis
    using Cons groups_after_concat [of h rest "[]"] by (simp add: line_groups_def)
qed

lemma close_section_content:
  "map sr_content (close_section sections cur e)
   = map sr_content sections @ (case cur of None \<Rightarrow> [] | Some c \<Rightarrow> [sr_content c])"
  by (cases cur) simp_all

lemma parse_loop_open_content:
  "sr_content c = unlines g \<Longrightarrow>
   map sr_content (parse_loop ls sections (Some c) n)
   = map sr_content sections @ map unlines (groups_after g ls)"
proof (induction ls arbitrary: sections c n g)
  case Nil
  then show ?case by simp
next
  case (Cons l ls)
  show ?case
  proof (cases "match_header l")
    case None
    then have nh: "\<not> is_header l" by (simp add: is_header_def)
    have "sr_content (c\<lparr>sr_content := sr_content c @ l @ [NL]\<rparr>) = unlines (g @ [l])"
      using Cons.prems by (simp add: unlines_def)
    from Cons.IH [OF this] show ?thesis using None nh by simp
  next
    case (Some a)
    then have h: "is_header l" by (simp add: is_header_def)
    obtain level heading where a: "a = (level, heading)" by (cases a)
    let ?new = "\<lparr>sr_id = ''section-'' @ show_nat (length (sections @ [c\<lparr>sr_end_line := n\<rparr>]) + 1),
                  sr_level = level, sr_title = heading, sr_content = [],
                  sr_start_line = n + 1, sr_end_line = n + 1\<rparr>"
    have "sr_content ?new = unlines []" by (simp add: unlines_def)
    from Cons.IH [OF this, of "sections @ [c\<lparr>sr_end_line := n\<rparr>]" "n + 1"]
    show ?thesis using Some a h Cons.prems by simp
  qed
qed

lemma parse_loop_closed_content:
  "map sr_content (parse_loop ls sections None n)
   = map sr_content sections @ map unlines (line_groups ls)"
proof (induction ls arbitrary: n)
  case Nil
  show ?case by (simp add: line_groups_def)
next
  case (Cons l ls)
  show ?case
  proof (cases "match_header l")
    case None
    then have nh: "\<not> is_header l" by (simp add: is_header_def)
    then have "line_groups (l # ls) = line_groups ls" by (simp add: line_groups_def)
    then show ?thesis using None Cons.IH by simp
  next
    case (Some a)
    then have h: "is_header l" by (simp add: is_header_def)
    obtain level heading where a: "a = (level, heading)" by (cases a)
    have lg: "line_groups (l # ls) = groups_after [] ls" using h by (simp add: line_groups_def)
    let ?new = "\<lparr>sr_id = ''section-'' @ show_nat (length sections + 1),
                  sr_level = level, sr_title = heading, sr_content = [],
                  sr_start_line = n + 1, sr_end_line = n + 1\<rparr>"
    have "sr_content ?new = unlines []" by (simp add: unlines_def)
    from parse_loop_open_content [OF this, of ls sections "n + 1"]
    show ?thesis using Some a lg by simp
  qed
qed

lemma parseMarkdown_contents:
  "map sr_content (parseMarkdown body) = map unlines (line_groups (split [NL] body))"
  by (simp add: parseMarkdown_def parse_loop_closed_content)

lemma rebuild_from_groups:
  assumes "map f secs = map unlines groups"
  shows "concat (map (\<lambda>(h, s). h @ [NL] @ f s) (zip hs secs))
         = unlines (concat (map (\<lambda>(h, grp). h # grp) (zip hs groups)))"
  using assms
proof (induction secs arbitrary: hs groups)
  case Nil
  then show ?case by (simp add: unlines_def)
next
  case (Cons s secs)
  then obtain g gs where g: "groups = g # gs" by (cases groups) auto
  show ?case
  proof (cases hs)
    case Nil
    then show ?thesis by (simp add: unlines_def)
  next
    case (Cons h hs')
    have "concat (map (\<lambda>(h, s). h @ [NL] @ f s) (zip hs' secs))
          = unlines (concat (map (\<lambda>(h, grp). h # grp) (zip hs' gs)))"
      using Cons.IH [of gs hs'] Cons.prems g by simp
    moreover have "f s = unlines g" using Cons.prems g by simp
    ultimately show ?thesis using Cons g by (simp add: unlines_def)
  qed
qed

lemma parseMarkdown_rebuild:
  "unlines (takeWhile (\<lambda>l. \<not> is_header l) (split [NL] body))
   @ concat (map (\<lambda>(h, s). h @ [NL] @ sr_content s)
       (zip (filter is_header (split [NL] body)) (parseMarkdown body)))
   = body @ [NL]"
proof -
  let ?ls = "split [NL] body"
  have "concat (map (\<lambda>(h, s). h @ [NL] @ sr_content s) (zip (filter is_header ?ls) (parseMarkdown body)))
        = unlines (dropWhile (\<lambda>l. \<not> is_header l) ?ls)"
    using rebuild_from_groups [OF parseMarkdown_contents, of "filter is_header ?ls" body]
    by (simp add: line_groups_concat)
  moreover have "unlines (takeWhile (\<lambda>l. \<not> is_header l) ?ls)
        @ unlines (dropWhile (\<lambda>l. \<not> is_header l) ?ls) = unlines ?ls"
    using unlines_append [of "takeWhile (\<lambda>l. \<not> is_header l) ?ls" "dropWhile (\<lambda>l. \<not> is_header l) ?ls"]
    by simp
  ultimately show ?thesis by (simp add: unlines_split)
qed

lemma parseMarkdown_length:
  "length (parseMarkdown body) = length (filter is_header (split [NL] body))"
  using arg_cong [OF parseMarkdown_contents, of length body]
  by (simp add: line_groups_length)

lemma parse_loop_open_ordered:
  assumes "sorted_wrt (\<lambda>a b. sr_end_line a < sr_start_line b) sections"
    and "\<forall>s \<in> set sections. 1 \<le> sr_start_line s \<and> sr_start_line s \<le> sr_end_line s
           \<and> sr_end_line s < sr_start_line c"
    and "1 \<le> sr_start_line c" and "sr_start_line c \<le> n"
  shows "sorted_wrt (\<lambda>a b. sr_end_line a < sr_start_line b) (parse_loop ls sections (Some c) n)
         \<and> (\<forall>s \<in> set (parse_loop ls sections (Some c) n).
               1 \<le> sr_start_line s \<and> sr_start_line s \<le> sr_end_line s
               \<and> sr_end_line s \<le> n + length ls)"
  using assms
proof (induction ls arbitrary: sections c n)
  case Nil
  then show ?case by (auto simp: sorted_wrt_append)
next
  case (Cons l ls)
  show ?case
  proof (cases "match_header l")
    case None
    have "sorted_wrt (\<lambda>a b. sr_end_line a < sr_start_line b)
            (parse_loop ls sections (Some (c\<lparr>sr_content := sr_content c @ l @ [NL]\<rparr>)) (n + 1))
          \<and> (\<forall>s \<in> set (parse_loop ls sections (Some (c\<lparr>sr_content := sr_content c @ l @ [NL]\<rparr>)) (n + 1)).
               1 \<le> sr_start_line s \<and> sr_start_line s \<le> sr_end_line s
               \<and> sr_end_line s \<le> (n + 1) + length ls)"
      using Cons.prems by (intro Cons.IH) auto
    then show ?thesis using None by simp
  next
    case (Some a)
    obtain level heading where a: "a = (level, heading)" by (cases a)
    let ?secs = "sections @ [c\<lparr>sr_end_line := n\<rparr>]"
    let ?new = "\<lparr>sr_id = ''section-'' @ show_nat (length ?secs + 1),
                  sr_level = level, sr_title = heading, sr_content = [],
                  sr_start_line = n + 1, sr_end_line = n + 1\<rparr>"
    have "sorted_wrt (\<lambda>a b. sr_end_line a < sr_start_line b) (parse_loop ls ?secs (Some ?new) (n + 1))
          \<and> (\<forall>s \<in> set (parse_loop ls ?secs (Some ?new) (n + 1)).
               1 \<le> sr_start_line s \<and> sr_start_line s \<le> sr_end_line s
               \<and> sr_end_line s \<le> (n + 1) + length ls)"
      using Cons.prems by (intro Cons.IH) (auto simp: sorted_wrt_append)
    then show ?thesis using Some a by simp
  qed
qed

lemma parse_loop_closed_ordered:
  "sorted_wrt (\<lambda>a b. sr_end_line a < sr_start_line b) (parse_loop ls [] None n)
   \<and> (\<forall>s \<in> set (parse_loop ls [] None n).
         1 \<le> sr_start_line s \<and> sr_start_line s \<le> sr_end_line s
         \<and> sr_end_line s \<le> n + length ls)"
proof (induction ls arbitrary: n)
  case Nil
  show ?case by simp
next
  case (Cons l ls)
  show ?case
  proof (cases "match_header l")
    case None
    then show ?thesis using Cons.IH [of "n + 1"] by simp
  next
    case (Some a)
    obtain level heading where a: "a = (level, heading)" by (cases a)
    let ?new = "\<lparr>sr_id = ''section-'' @ show_nat (length ([] :: SectionRow list) + 1),
                  sr_level = level, sr_title = heading, sr_content = [],
                  sr_start_line = n + 1, sr_end_line = n + 1\<rparr>"
    have "sorted_wrt (\<lambda>a b. sr_end_line a < sr_start_line b) (parse_loop ls [] (Some ?new) (n + 1))
          \<and> (\<forall>s \<in> set (parse_loop ls [] (Some ?new) (n + 1)).
               1 \<le> sr_start_line s \<and> sr_start_line s \<le> sr_end_line s
               \<and> sr_end_line s \<le> (n + 1) + length ls)"
      by (intro parse_loop_open_ordered) auto
    then show ?thesis using Some a by simp
  qed
qed

lemma extract_loop_open_content:
  "map s_content (extract_loop ls i sections (Some c) g blocks)
   = map s_content sections @ map (\<lambda>g. trim (join [NL] g)) (groups_after g ls)"
proof (induction ls arbitrary: i sections c g blocks)
  case Nil
  show ?case by (simp add: finish_section_def)
next
  case (Cons l ls)
  show ?case
  proof (cases "match_header l")
    case None
    then have "\<not> is_header l" by (simp add: is_header_def)
    then show ?thesis using None Cons.IH by simp
  next
    case (Some a)
    obtain level heading where a: "a = (level, heading)" by (cases a)
    have "is_header l" using Some by (simp add: is_header_def)
    then show ?thesis using Some a Cons.IH by (simp add: finish_section_def)
  qed
qed

lemma extract_loop_closed_content:
  "map s_content (extract_loop ls i [] None g blocks)
   = map (\<lambda>g. trim (join [NL] g)) (line_groups ls)"
proof (induction ls arbitrary: i g blocks)
  case Nil
  show ?case by (simp add: line_groups_def)
next
  case (Cons l ls)
  show ?case
  proof (cases "match_header l")
    case None
    then have "\<not> is_header l" by (simp add: is_header_def)
    then have "line_groups (l # ls) = line_groups ls" by (simp add: line_groups_def)
    then show ?thesis using None Cons.IH by simp
  next
    case (Some a)
    obtain level heading where a: "a = (level, heading)" by (cases a)
    have "is_header l" using Some by (simp add: is_header_def)
    then have "line_groups (l # ls) = groups_after [] ls" by (simp add: line_groups_def)
    then show ?thesis using Some a by (simp add: extract_loop_open_content)
  qed
qed

lemma extract_loop_open_ordered:
  assumes "sorted_wrt (\<lambda>a b. s_endLine a < s_startLine b) sections"
    and "\<forall>s \<in> set sections. s_startLine s \<le> s_endLine s \<and> s_endLine s < o_startLine c"
    and "o_startLine c < i"
  shows "sorted_wrt (\<lambda>a b. s_endLine a < s_startLine b) (extract_loop ls i sections (Some c) g blocks)
         \<and> (\<forall>s \<in> set (extract_loop ls i sections (Some c) g blocks).
               s_startLine s \<le> s_endLine s \<and> s_endLine s < i + length ls)"
  using assms
proof (induction ls arbitrary: i sections c g blocks)
  case Nil
  then show ?case by (auto simp: sorted_wrt_append finish_section_def)
next
  case (Cons l ls)
  show ?case
  proof (cases "match_header l")
    case None
    let ?b = "if prefix ''```'' l
             then (case extractCodeBlock l ls of Some codeBlock \<Rightarrow> blocks @ [codeBlock] | None \<Rightarrow> blocks)
             else blocks"
    have "sorted_wrt (\<lambda>a b. s_endLine a < s_startLine b)
            (extract_loop ls (i + 1) sections (Some c) (g @ [l]) ?b)
          \<and> (\<forall>s \<in> set (extract_loop ls (i + 1) sections (Some c) (g @ [l]) ?b).
               s_startLine s \<le> s_endLine s \<and> s_endLine s < (i + 1) + length ls)"
      using Cons.prems by (intro Cons.IH) auto
    then show ?thesis using None by simp
  next
    case (Some a)
    obtain level heading where a: "a = (level, heading)" by (cases a)
    let ?secs = "sections @ [finish_section c g blocks (i - 1)]"
    let ?new = "\<lparr>o_id = generateSectionId heading, o_level = level, o_title = heading,
                  o_startLine = i\<rparr>"
    have "sorted_wrt (\<lambda>a b. s_endLine a < s_startLine b) (extract_loop ls (i + 1) ?secs (Some ?new) [] [])
          \<and> (\<forall>s \<in> set (extract_loop ls (i + 1) ?secs (Some ?new) [] []).
               s_startLine s \<le> s_endLine s \<and> s_endLine s < (i + 1) + length ls)"
      using Cons.prems by (intro Cons.IH) (auto simp: sorted_wrt_append finish_section_def)
    then show ?thesis using Some a by simp
  qed
qed

lemma extract_loop_closed_ordered:
  "sorted_wrt (\<lambda>a b. s_endLine a < s_startLine b) (extract_loop ls i [] None g blocks)
   \<and> (\<forall>s \<in> set (extract_loop ls i [] None g blocks).
         s_startLine s \<le> s_endLine s \<and> s_endLine s < i + length ls)"
proof (induction ls arbitrary: i g blocks)
  case Nil
  show ?case by simp
next
  case (Cons l ls)
  show ?case
  proof (cases "match_header l")
    case None
    let ?b = "if prefix ''```'' l
             then (case extractCodeBlock l ls of Some codeBlock \<Rightarrow> blocks @ [codeBlock] | None \<Rightarrow> blocks)
             else blocks"
    show ?thesis using None Cons.IH [of "i + 1" "g @ [l]" ?b] by simp
  next
    case (Some a)
    obtain level heading where a: "a = (level, heading)" by (cases a)
    let ?new = "\<lparr>o_id = generateSectionId heading, o_level = level, o_title = heading,
                  o_startLine = i\<rparr>"
    have "sorted_wrt (\<lambda>a b. s_endLine a < s_startLine b) (extract_loop ls (i + 1) [] (Some ?new) [] [])
          \<and> (\<forall>s \<in> set (extract_loop ls (i + 1) [] (Some ?new) [] []).
               s_startLine s \<le> s_endLine s \<and> s_endLine s < (i + 1) + length ls)"
      by (intro extract_loop_open_ordered) auto
    then show ?thesis using Some a by simp
  qed
qed

text \<open>
  Claim C6, as amended. With \<^const>\<open>parseMarkdown\<close> there is one section for every heading
  line, and the lines before the first heading (each with its newline), followed by
  every section's heading line, a newline and its content, in order, are the body
  followed by one newline. With \<^const>\<open>extractSections\<close> there is one section for every
  heading line, and the content of a section is the trimmed join of the lines between
  its heading and the next, where heading lines and these line groups together are the
  lines of the body from the first heading on. With both splitters the sections are
  in strictly increasing order of start line and do not overlap: a section ends
  before the next one starts, at or after its own start, and inside the body.
\<close>

theorem sections_cover_body:
  "length (parseMarkdown body) = length (filter is_header (split [NL] body))
   \<and> unlines (takeWhile (\<lambda>l. \<not> is_header l) (split [NL] body))
       @ concat (map (\<lambda>(h, s). h @ [NL] @ sr_content s)
           (zip (filter is_header (split [NL] body)) (parseMarkdown body)))
     = body @ [NL]
   \<and> sorted_wrt (\<lambda>a b. sr_end_line a < sr_start_line b) (parseMarkdown body)
   \<and> (\<forall>s \<in> set (parseMarkdown body).
         1 \<le> sr_start_line s \<and> sr_start_line s \<le> sr_end_line s
         \<and> sr_end_line s \<le> length (split [NL] body))
   \<and> length (extractSections body) = length (filter is_header (split [NL] body))
   \<and> map s_content (extractSections body)
     = map (\<lambda>g. trim (join [NL] g)) (line_groups (split [NL] body))
   \<and> concat (map (\<lambda>(h, g). h # g)
         (zip (filter is_header (split [NL] body)) (line_groups (split [NL] body))))
     = dropWhile (\<lambda>l. \<not> is_header l) (split [NL] body)
   \<and> sorted_wrt (\<lambda>a b. s_endLine a < s_startLine b) (extractSections body)
   \<and> (\<forall>s \<in> set (extractSections body).
         s_startLine s \<le> s_endLine s \<and> s_endLine s < length (split [NL] body))"
proof -
  have c: "map s_content (extractSections body)
           = map (\<lambda>g. trim (join [NL] g)) (line_groups (split [NL] body))"
    by (simp add: extractSections_def extract_loop_closed_content)
  have l: "length (extractSections body) = length (filter is_header (split [NL] body))"
    using arg_cong [OF c, of length] by (simp add: line_groups_length)
  have p: "sorted_wrt (\<lambda>a b. sr_end_line a < sr_start_line b) (parseMarkdown body)
           \<and> (\<forall>s \<in> set (parseMarkdown body).
                 1 \<le> sr_start_line s \<and> sr_start_line s \<le> sr_end_line s
                 \<and> sr_end_line s \<le> length (split [NL] body))"
    using parse_loop_closed_ordered [of "split [NL] body" 0] by (simp add: parseMarkdown_def)
  have e: "sorted_wrt (\<lambda>a b. s_endLine a < s_startLine b) (extractSections body)
           \<and> (\<forall>s \<in> set (extractSections body).
                 s_startLine s \<le> s_endLine s \<and> s_endLine s < length (split [NL] body))"
    using extract_loop_closed_ordered [of "split [NL] body" 0 "[]" "[]"]
    by (simp add: extractSections_def)
  from parseMarkdown_length [of body] parseMarkdown_rebuild [of body] p l c
    line_groups_concat [of "split [NL] body"] e
  show ?thesis by blast
qed

theorem sections_cover_body_witness:
  "unlines [''intro'']
     @ concat (map (\<lambda>(h, s). h @ [NL] @ sr_content s) (zip [''# A'', ''## B'']
         (parseMarkdown (''intro'' @ [NL] @ ''# A'' @ [NL] @ ''x'' @ [NL] @ ''## B''))))
     = (''intro'' @ [NL] @ ''# A'' @ [NL] @ ''x'' @ [NL] @ ''## B'') @ [NL]
   \<and> length (parseMarkdown (''intro'' @ [NL] @ ''# A'' @ [NL] @ ''x'' @ [NL] @ ''## B'')) = 2
   \<and> list_all (\<lambda>s. 1 \<le> sr_start_line s \<and> sr_start_line s \<le> sr_end_line s \<and> sr_end_line s \<le> 4)
       (parseMarkdown (''intro'' @ [NL] @ ''# A'' @ [NL] @ ''x'' @ [NL] @ ''## B''))
   \<and> list_all (\<lambda>s. s_startLine s \<le> s_endLine s \<and> s_endLine s < 4)
       (extractSections (''intro'' @ [NL] @ ''# A'' @ [NL] @ ''x'' @ [NL] @ ''## B''))"
proof -
  let ?b = "''intro'' @ [NL] @ ''# A'' @ [NL] @ ''x'' @ [NL] @ ''## B''"
  have ls: "split [NL] ?b = [''intro'', ''# A'', ''x'', ''## B'']"
    by (simp add: split_def NL_def)
  have hs: "filter is_header [''intro'', ''# A'', ''x'', ''## B''] = [''# A'', ''## B'']"
    by (simp add: is_header_def match_header_def is_space_def is_line_terminator_def)
  have tw: "takeWhile (\<lambda>l. \<not> is_header l) [''intro'', ''# A'', ''x'', ''## B''] = [''intro'']"
    by (simp add: is_header_def match_header_def is_space_def is_line_terminator_def)
  note t = sections_cover_body [of ?b, unfolded ls hs tw]
  have r: "unlines [''intro'']
     @ concat (map (\<lambda>(h, s). h @ [NL] @ sr_content s) (zip [''# A'', ''## B''] (parseMarkdown ?b)))
     = ?b @ [NL]"
    using t by blast
  have n: "length (parseMarkdown ?b) = length [''# A'', ''## B'']"
    using t by blast
  have "\<forall>s \<in> set (parseMarkdown ?b).
         1 \<le> sr_start_line s \<and> sr_start_line s \<le> sr_end_line s
         \<and> sr_end_line s \<le> length [''intro'', ''# A'', ''x'', ''## B'']"
    using t by blast
  then have a: "list_all (\<lambda>s. 1 \<le> sr_start_line s \<and> sr_start_line s \<le> sr_end_line s \<and> sr_end_line s \<le> 4)
       (parseMarkdown ?b)"
    by (auto simp: list_all_iff)
  have "\<forall>s \<in> set (extractSections ?b).
         s_startLine s \<le> s_endLine s \<and> s_endLine s < length [''intro'', ''# A'', ''x'', ''## B'']"
    using t by blast
  then have b: "list_all (\<lambda>s. s_startLine s \<le> s_endLine s \<and> s_endLine s < 4) (extractSections ?b)"
    by (auto simp: list_all_iff)
  from n have n2: "length (parseMarkdown ?b) = 2" by simp
  from r n2 a b show ?thesis by blast
qed

text \<open>
  The claim as stated fails. \<^const>\<open>extractSections\<close> trims: two different bodies with
  the same heading line give the same sections, so no way of putting heading lines and
  contents together gives both bodies back. \<^const>\<open>parseMarkdown\<close> ends every content
  line with a newline, also the last line of the body, which has none.
\<close>

theorem sections_cover_body_counterexample:
  "extractSections (''# A'' @ [NL] @ '' text'')
     = [\<lparr>s_id = ''a'', s_level = 1, s_title = ''A'', s_content = ''text'', s_codeBlocks = [],
         s_startLine = 0, s_endLine = 1\<rparr>]
   \<and> extractSections (''# A'' @ [NL] @ ''text'')
     = [\<lparr>s_id = ''a'', s_level = 1, s_title = ''A'', s_content = ''text'', s_codeBlocks = [],
         s_startLine = 0, s_endLine = 1\<rparr>]
   \<and> ''# A'' @ [NL] @ '' text'' \<noteq> ''# A'' @ [NL] @ ''text''
   \<and> parseMarkdown (''# A'' @ [NL] @ ''x'')
     = [\<lparr>sr_id = ''section-1'', sr_level = 1, sr_title = ''A'', sr_content = ''x'' @ [NL],
         sr_start_line = 1, sr_end_line = 2\<rparr>]
   \<and> ''# A'' @ [NL] @ (''x'' @ [NL]) \<noteq> ''# A'' @ [NL] @ ''x''"
  by (simp add: section_eval)

section \<open>Properties of the chunker\<close>

lemma split_loop_texts:
  "length header = 3 \<Longrightarrow>
   map c_text (split_loop m s ps chunks (header @ g) idx)
   = map c_text chunks @ map (\<lambda>(h, grp). join [NL, NL] (h @ grp)) (split_groups m s header g ps)"
proof (induction ps arbitrary: chunks header g idx)
  case Nil
  then show ?case by (simp add: split_chunk_def)
next
  case (Cons p ps)
  show ?case
  proof (cases "estimateTokens (join [NL, NL] (header @ g @ [p])) > 1000")
    case True
    have "length (continued_header m s) = 3" by (simp add: continued_header_def)
    from Cons.IH [OF this, of "chunks @ [split_chunk m s idx (header @ g)]" "[p]" "idx + 1"]
    show ?thesis using True by (simp add: split_chunk_def)
  next
    case False
    from Cons.IH [OF Cons.prems, of chunks "g @ [p]" idx]
    show ?thesis using False by simp
  qed
qed

lemma split_loop_tokens:
  "\<forall>c \<in> set chunks. c_tokens c = estimateTokens (c_text c) \<Longrightarrow>
   \<forall>c \<in> set (split_loop m s ps chunks cur idx). c_tokens c = estimateTokens (c_text c)"
proof (induction ps arbitrary: chunks cur idx)
  case Nil
  then show ?case by (simp add: split_chunk_def)
next
  case (Cons p ps)
  show ?case
  proof (cases "estimateTokens (join [NL, NL] (cur @ [p])) > 1000")
    case True
    have "\<forall>c \<in> set (chunks @ [split_chunk m s idx cur]). c_tokens c = estimateTokens (c_text c)"
      using Cons.prems by (simp add: split_chunk_def)
    from Cons.IH [OF this] show ?thesis using True by simp
  next
    case False
    from Cons.IH [OF Cons.prems] show ?thesis using False by simp
  qed
qed

lemma split_groups_concat: "concat (map snd (split_groups m s header g ps)) = g @ ps"
  by (induction ps arbitrary: header g) simp_all

lemma split_groups_bound:
  assumes "estimateTokens (join [NL, NL] (header @ g)) \<le> 1000
           \<or> (\<exists>p. g = [p] \<and> header = continued_header m s)
           \<or> (g = [] \<and> header = first_header m s)"
    and "(h, grp) \<in> set (split_groups m s header g ps)"
  shows "estimateTokens (join [NL, NL] (h @ grp)) \<le> 1000
         \<or> (\<exists>p \<in> set (g @ ps). grp = [p] \<and> h = continued_header m s)
         \<or> (grp = [] \<and> h = first_header m s)"
  using assms
proof (induction ps arbitrary: header g)
  case Nil
  then show ?case by (auto split: if_splits)
next
  case (Cons p ps)
  show ?case
  proof (cases "estimateTokens (join [NL, NL] (header @ g @ [p])) > 1000")
    case True
    show ?thesis
    proof (cases "(h, grp) = (header, g)")
      case True
      then show ?thesis using Cons.prems(1) by auto
    next
      case False
      then have "(h, grp) \<in> set (split_groups m s (continued_header m s) [p] ps)"
        using Cons.prems(2) True by auto
      from Cons.IH [OF _ this] show ?thesis by auto
    qed
  next
    case False
    then have "(h, grp) \<in> set (split_groups m s header (g @ [p]) ps)"
      using Cons.prems(2) by simp
    moreover have "estimateTokens (join [NL, NL] (header @ g @ [p])) \<le> 1000"
      using False by simp
    ultimately show ?thesis using Cons.IH [of header "g @ [p]"] by auto
  qed
qed

lemma splitLargeSection_texts:
  "map c_text (splitLargeSection m s)
   = map (\<lambda>(h, grp). join [NL, NL] (h @ grp)) (paragraph_groups m s)"
  using split_loop_texts [of "first_header m s" m s "split [NL, NL] (s_content s)" "[]" "[]" 0]
  by (simp add: splitLargeSection_def paragraph_groups_def first_header_def)

lemma paragraph_groups_concat:
  "concat (map snd (paragraph_groups m s)) = split [NL, NL] (s_content s)"
  by (simp add: paragraph_groups_def split_groups_concat)

lemma paragraph_groups_bound:
  "(h, grp) \<in> set (paragraph_groups m s) \<Longrightarrow>
   estimateTokens (join [NL, NL] (h @ grp)) \<le> 1000
   \<or> (\<exists>p \<in> set (split [NL, NL] (s_content s)). grp = [p] \<and> h = continued_header m s)
   \<or> (grp = [] \<and> h = first_header m s)"
  using split_groups_bound [of "first_header m s" "[]" m s h grp "split [NL, NL] (s_content s)"]
  by (simp add: paragraph_groups_def)

lemma splitLargeSection_tokens:
  "c \<in> set (splitLargeSection m s) \<Longrightarrow> c_tokens c = estimateTokens (c_text c)"
  using split_loop_tokens [of "[]" m s] by (simp add: splitLargeSection_def)

lemma createChunks_append:
  "createChunks m (xs @ ys) = createChunks m xs @ createChunks m ys"
  by (induction xs) simp_all

lemma createChunks_set:
  "set (createChunks m secs) = (\<Union>s \<in> set secs. set (createChunks m [s]))"
proof (induction secs)
  case Nil
  show ?case by simp
next
  case (Cons s secs)
  have "createChunks m (s # secs) = createChunks m [s] @ createChunks m secs"
    using createChunks_append [of m "[s]" secs] by simp
  then show ?case using Cons by simp
qed

lemma split_groups_headers:
  "(h, grp) \<in> set (split_groups m s header g ps) \<Longrightarrow> h = header \<or> h = continued_header m s"
  by (induction ps arbitrary: header g) (auto split: if_splits)

lemma chunkText_content:
  "chunkText m s = ''# '' @ m_title m @ [NL] @ ''Category: '' @ category_text (m_category m) @ [NL]
                   @ ''Section: '' @ s_title s @ [NL] @ [NL] @ s_content s"
  by (simp add: chunkText_def)

lemma createChunks_short: "length (s_content s) < 100 \<Longrightarrow> createChunks m [s] = []"
  by simp

lemma createChunks_split:
  "100 \<le> length (s_content s) \<Longrightarrow> 1000 < estimateTokens (chunkText m s) \<Longrightarrow>
   createChunks m [s] = splitLargeSection m s"
  by simp

lemma createChunks_one:
  "100 \<le> length (s_content s) \<Longrightarrow> estimateTokens (chunkText m s) \<le> 1000 \<Longrightarrow>
   createChunks m [s]
   = [\<lparr>c_id = m_id m @ ''-'' @ s_id s, c_guideId = m_id m, c_sectionId = s_id s,
       c_text = chunkText m s, c_tokens = estimateTokens (chunkText m s),
       c_metadata = chunk_metadata m s\<rparr>]"
  by simp

lemma single_chunk_bound:
  assumes "c \<in> set (createChunks m [s])"
  shows "c_tokens c = estimateTokens (c_text c)
         \<and> (c_tokens c \<le> 1000
            \<or> (\<exists>p \<in> set (split [NL, NL] (s_content s)).
                  c_text c = join [NL, NL] (continued_header m s @ [p]))
            \<or> c_text c = join [NL, NL] (first_header m s))"
proof -
  consider (short) "length (s_content s) < 100"
    | (one) "100 \<le> length (s_content s)" "estimateTokens (chunkText m s) \<le> 1000"
    | (split) "100 \<le> length (s_content s)" "1000 < estimateTokens (chunkText m s)"
    by linarith
  then show ?thesis
  proof cases
    case short
    then show ?thesis using assms unfolding createChunks_short [OF short] by simp
  next
    case one
    show ?thesis using assms one(2) unfolding createChunks_one [OF one] by simp
  next
    case split
    have c: "c \<in> set (splitLargeSection m s)"
      using assms unfolding createChunks_split [OF split] .
    then have t: "c_tokens c = estimateTokens (c_text c)"
      by (rule splitLargeSection_tokens)
    have "c_text c \<in> set (map c_text (splitLargeSection m s))" using c by simp
    then obtain h grp where g: "(h, grp) \<in> set (paragraph_groups m s)"
        and x: "c_text c = join [NL, NL] (h @ grp)"
      unfolding splitLargeSection_texts by auto
    from paragraph_groups_bound [OF g]
    consider "estimateTokens (join [NL, NL] (h @ grp)) \<le> 1000"
      | "\<exists>p \<in> set (split [NL, NL] (s_content s)). grp = [p] \<and> h = continued_header m s"
      | "grp = [] \<and> h = first_header m s"
      by blast
    then show ?thesis
    proof cases
      case 1
      then show ?thesis using t x by simp
    next
      case 2
      then show ?thesis using t x by blast
    next
      case 3
      then show ?thesis using t x by simp
    qed
  qed
qed

lemma split_paragraph_kept:
  assumes "100 \<le> length (s_content s)" and "1000 < estimateTokens (chunkText m s)"
    and "p \<in> set (split [NL, NL] (s_content s))"
  shows "\<exists>c \<in> set (createChunks m [s]). \<exists>(h, grp) \<in> set (paragraph_groups m s).
           p \<in> set grp \<and> c_text c = join [NL, NL] (h @ grp)"
proof -
  have "p \<in> set (concat (map snd (paragraph_groups m s)))"
    using assms(3) by (simp add: paragraph_groups_concat)
  then obtain hg where hg: "hg \<in> set (paragraph_groups m s)" and p: "p \<in> set (snd hg)"
    by auto
  obtain h grp where e: "hg = (h, grp)" by (cases hg)
  have "(\<lambda>(h, grp). join [NL, NL] (h @ grp)) hg
        \<in> (\<lambda>(h, grp). join [NL, NL] (h @ grp)) ` set (paragraph_groups m s)"
    using hg by (rule imageI)
  then have "join [NL, NL] (h @ grp) \<in> set (map c_text (splitLargeSection m s))"
    unfolding splitLargeSection_texts e by simp
  then obtain c where c: "c \<in> set (splitLargeSection m s)" "c_text c = join [NL, NL] (h @ grp)"
    by auto
  have "createChunks m [s] = splitLargeSection m s"
    using assms(1,2) by (rule createChunks_split)
  with c have "c \<in> set (createChunks m [s])" by simp
  moreover have "(h, grp) \<in> set (paragraph_groups m s)" using hg e by simp
  moreover have "p \<in> set grp" using p e by simp
  ultimately show ?thesis using c(2) by blast
qed

text \<open>
  Claim C5, as amended. The token estimate of every chunk is the estimate of its whole
  text, context header included. It is at most 1000, unless the chunk is one that the
  paragraph splitter made of the continuation header and exactly one paragraph of the
  section, or the header-only chunk that the splitter pushes before a first paragraph
  that does not fit (about that chunk nothing more is stated). Every paragraph of a
  section that is split is, whole, one of the paragraphs of a chunk.
\<close>

theorem createChunks_token_bound:
  "(\<forall>c \<in> set (createChunks m secs).
      c_tokens c = estimateTokens (c_text c)
      \<and> (c_tokens c \<le> 1000
         \<or> (\<exists>s \<in> set secs. \<exists>p \<in> set (split [NL, NL] (s_content s)).
               c_text c = join [NL, NL] (continued_header m s @ [p]))
         \<or> (\<exists>s \<in> set secs. c_text c = join [NL, NL] (first_header m s))))
   \<and> (\<forall>s \<in> set secs. 100 \<le> length (s_content s) \<and> 1000 < estimateTokens (chunkText m s) \<longrightarrow>
        (\<forall>p \<in> set (split [NL, NL] (s_content s)).
           \<exists>c \<in> set (createChunks m secs). \<exists>(h, grp) \<in> set (paragraph_groups m s).
             p \<in> set grp \<and> c_text c = join [NL, NL] (h @ grp)))"
proof -
  have a: "c_tokens c = estimateTokens (c_text c)
      \<and> (c_tokens c \<le> 1000
         \<or> (\<exists>s \<in> set secs. \<exists>p \<in> set (split [NL, NL] (s_content s)).
               c_text c = join [NL, NL] (continued_header m s @ [p]))
         \<or> (\<exists>s \<in> set secs. c_text c = join [NL, NL] (first_header m s)))"
    if "c \<in> set (createChunks m secs)" for c
  proof -
    from that obtain s where s: "s \<in> set secs" and c: "c \<in> set (createChunks m [s])"
      using createChunks_set [of m secs] by blast
    from single_chunk_bound [OF c] s show ?thesis by blast
  qed
  have b: "\<exists>c \<in> set (createChunks m secs). \<exists>(h, grp) \<in> set (paragraph_groups m s).
             p \<in> set grp \<and> c_text c = join [NL, NL] (h @ grp)"
    if "s \<in> set secs" "100 \<le> length (s_content s) \<and> 1000 < estimateTokens (chunkText m s)"
      "p \<in> set (split [NL, NL] (s_content s))" for s p
  proof -
    have "\<exists>c \<in> set (createChunks m [s]). \<exists>(h, grp) \<in> set (paragraph_groups m s).
           p \<in> set grp \<and> c_text c = join [NL, NL] (h @ grp)"
      using that(2,3) by (intro split_paragraph_kept) simp_all
    then obtain c where c: "c \<in> set (createChunks m [s])"
      "\<exists>(h, grp) \<in> set (paragraph_groups m s). p \<in> set grp \<and> c_text c = join [NL, NL] (h @ grp)"
      by (rule bexE)
    have "c \<in> set (createChunks m secs)"
      using c(1) that(1) createChunks_set [of m secs] by blast
    then show ?thesis using c(2) by (rule bexI [rotated])
  qed
  show ?thesis
  proof (rule conjI)
    show "\<forall>c \<in> set (createChunks m secs).
      c_tokens c = estimateTokens (c_text c)
      \<and> (c_tokens c \<le> 1000
         \<or> (\<exists>s \<in> set secs. \<exists>p \<in> set (split [NL, NL] (s_content s)).
               c_text c = join [NL, NL] (continued_header m s @ [p]))
         \<or> (\<exists>s \<in> set secs. c_text c = join [NL, NL] (first_header m s)))"
    proof (rule ballI)
      fix c
      assume "c \<in> set (createChunks m secs)"
      then show "c_tokens c = estimateTokens (c_text c)
        \<and> (c_tokens c \<le> 1000
           \<or> (\<exists>s \<in> set secs. \<exists>p \<in> set (split [NL, NL] (s_content s)).
                 c_text c = join [NL, NL] (continued_header m s @ [p]))
           \<or> (\<exists>s \<in> set secs. c_text c = join [NL, NL] (first_header m s)))"
        by (rule a)
    qed
    show "\<forall>s \<in> set secs. 100 \<le> length (s_content s) \<and> 1000 < estimateTokens (chunkText m s) \<longrightarrow>
        (\<forall>p \<in> set (split [NL, NL] (s_content s)).
           \<exists>c \<in> set (createChunks m secs). \<exists>(h, grp) \<in> set (paragraph_groups m s).
             p \<in> set grp \<and> c_text c = join [NL, NL] (h @ grp))"
    proof (intro ballI impI)
      fix s p
      assume "s \<in> set secs" "100 \<le> length (s_content s) \<and> 1000 < estimateTokens (chunkText m s)"
        "p \<in> set (split [NL, NL] (s_content s))"
      then show "\<exists>c \<in> set (createChunks m secs). \<exists>(h, grp) \<in> set (paragraph_groups m s).
               p \<in> set grp \<and> c_text c = join [NL, NL] (h @ grp)"
        by (rule b)
    qed
  qed
qed

text \<open>
  Claim C7, as amended. For a section whose content has at least 100 characters: when
  the candidate chunk is within the ceiling, the one chunk is the context header
  followed by the content; otherwise the texts of the chunks are the joins of a header
  (the first one or the continuation one) and a group of paragraphs, and the groups,
  in order, are the paragraphs of the content, each once, so that joining them with
  blank lines gives the content.
\<close>

theorem createChunks_cover_section:
  "100 \<le> length (s_content s) \<Longrightarrow>
     (estimateTokens (chunkText m s) \<le> 1000 \<longrightarrow>
        map c_text (createChunks m [s]) = [chunkText m s]
        \<and> chunkText m s
          = ''# '' @ m_title m @ [NL] @ ''Category: '' @ category_text (m_category m) @ [NL]
            @ ''Section: '' @ s_title s @ [NL] @ [NL] @ s_content s)
   \<and> (1000 < estimateTokens (chunkText m s) \<longrightarrow>
        map c_text (createChunks m [s])
          = map (\<lambda>(h, grp). join [NL, NL] (h @ grp)) (paragraph_groups m s)
        \<and> (\<forall>(h, grp) \<in> set (paragraph_groups m s).
              h = first_header m s \<or> h = continued_header m s)
        \<and> concat (map snd (paragraph_groups m s)) = split [NL, NL] (s_content s)
        \<and> join [NL, NL] (concat (map snd (paragraph_groups m s))) = s_content s)"
proof (intro conjI impI)
  assume a: "100 \<le> length (s_content s)" and b: "estimateTokens (chunkText m s) \<le> 1000"
  then show "map c_text (createChunks m [s]) = [chunkText m s]"
    by (simp add: createChunks_one)
  show "chunkText m s
          = ''# '' @ m_title m @ [NL] @ ''Category: '' @ category_text (m_category m) @ [NL]
            @ ''Section: '' @ s_title s @ [NL] @ [NL] @ s_content s"
    by (rule chunkText_content)
next
  assume a: "100 \<le> length (s_content s)" and b: "1000 < estimateTokens (chunkText m s)"
  then have "createChunks m [s] = splitLargeSection m s" by (rule createChunks_split)
  then show "map c_text (createChunks m [s])
          = map (\<lambda>(h, grp). join [NL, NL] (h @ grp)) (paragraph_groups m s)"
    by (simp add: splitLargeSection_texts)
  show "\<forall>(h, grp) \<in> set (paragraph_groups m s). h = first_header m s \<or> h = continued_header m s"
  proof (intro ballI)
    fix hg
    assume "hg \<in> set (paragraph_groups m s)"
    then have "(fst hg, snd hg)
        \<in> set (split_groups m s (first_header m s) [] (split [NL, NL] (s_content s)))"
      unfolding paragraph_groups_def by simp
    from split_groups_headers [OF this]
    show "case hg of (h, grp) \<Rightarrow> h = first_header m s \<or> h = continued_header m s"
      by (cases hg) simp
  qed
  show "concat (map snd (paragraph_groups m s)) = split [NL, NL] (s_content s)"
    by (rule paragraph_groups_concat)
  then show "join [NL, NL] (concat (map snd (paragraph_groups m s))) = s_content s"
    by (simp add: join_split)
qed

lemma split_from_plain: "NL \<notin> set p \<Longrightarrow> split_from [NL, NL] acc p = [acc @ p]"
  by (induction p arbitrary: acc) simp_all

lemma split_from_blank:
  "NL \<notin> set p \<Longrightarrow>
   split_from [NL, NL] acc (p @ NL # NL # rest) = (acc @ p) # split_from [NL, NL] [] rest"
  by (induction p arbitrary: acc) simp_all

lemma two_paragraphs:
  "split [NL, NL] (replicate 3990 (CHR ''a'') @ [NL, NL] @ replicate 100 (CHR ''b''))
   = [replicate 3990 (CHR ''a''), replicate 100 (CHR ''b'')]"
  using split_from_blank [of "replicate 3990 (CHR ''a'')" "[]" "replicate 100 (CHR ''b'')"]
    split_from_plain [of "replicate 100 (CHR ''b'')" "[]"]
  by (simp add: split_def NL_def)

text \<open>Evaluation of the chunker on a concrete section.\<close>

lemmas chunk_eval = estimateTokens_def chunkText_def category_text_def first_header_def
  continued_header_def paragraph_groups_def

lemma paragraph_within_ceiling_example:
  "map c_tokens (createChunks
      \<lparr>m_id = ''g'', m_title = ''T'', m_category = One ''c'', m_subcategory = None,
       m_type = ''guide'', m_status = ''draft'', m_version = ''1'', m_last_updated = '''',
       m_languages = None, m_frameworks = None, m_platforms = None, m_tags = [],
       m_related_guides = None\<rparr>
      [\<lparr>s_id = ''s'', s_level = 2, s_title = ''S'',
        s_content = replicate 3990 (CHR ''a'') @ [NL, NL] @ replicate 100 (CHR ''b''),
        s_codeBlocks = [], s_startLine = 0, s_endLine = 2\<rparr>])
   = [5, 1006, 33]
   \<and> map c_text (createChunks
      \<lparr>m_id = ''g'', m_title = ''T'', m_category = One ''c'', m_subcategory = None,
       m_type = ''guide'', m_status = ''draft'', m_version = ''1'', m_last_updated = '''',
       m_languages = None, m_frameworks = None, m_platforms = None, m_tags = [],
       m_related_guides = None\<rparr>
      [\<lparr>s_id = ''s'', s_level = 2, s_title = ''S'',
        s_content = replicate 3990 (CHR ''a'') @ [NL, NL] @ replicate 100 (CHR ''b''),
        s_codeBlocks = [], s_startLine = 0, s_endLine = 2\<rparr>])
     = [join [NL, NL] [''# T'', ''Section: S'', []],
        join [NL, NL] [''# T'', ''Section: S (continued)'', [], replicate 3990 (CHR ''a'')],
        join [NL, NL] [''# T'', ''Section: S (continued)'', [], replicate 100 (CHR ''b'')]]
   \<and> estimateTokens (replicate 3990 (CHR ''a'')) = 998"
proof -
  let ?m = "\<lparr>m_id = ''g'', m_title = ''T'', m_category = One ''c'', m_subcategory = None,
       m_type = ''guide'', m_status = ''draft'', m_version = ''1'', m_last_updated = '''',
       m_languages = None, m_frameworks = None, m_platforms = None, m_tags = [],
       m_related_guides = None\<rparr>"
  let ?s = "\<lparr>s_id = ''s'', s_level = 2, s_title = ''S'',
        s_content = replicate 3990 (CHR ''a'') @ [NL, NL] @ replicate 100 (CHR ''b''),
        s_codeBlocks = [], s_startLine = 0, s_endLine = 2\<rparr>"
  have len: "100 \<le> length (s_content ?s)" by simp
  have big: "1000 < estimateTokens (chunkText ?m ?s)" by (simp add: chunk_eval)
  have c: "createChunks ?m [?s] = splitLargeSection ?m ?s"
    using len big by (rule createChunks_split)
  have g: "paragraph_groups ?m ?s
           = [([''# T'', ''Section: S'', []], []),
              ([''# T'', ''Section: S (continued)'', []], [replicate 3990 (CHR ''a'')]),
              ([''# T'', ''Section: S (continued)'', []], [replicate 100 (CHR ''b'')])]"
    using two_paragraphs by (simp add: chunk_eval)
  have t: "map c_text (createChunks ?m [?s])
     = [join [NL, NL] [''# T'', ''Section: S'', []],
        join [NL, NL] [''# T'', ''Section: S (continued)'', [], replicate 3990 (CHR ''a'')],
        join [NL, NL] [''# T'', ''Section: S (continued)'', [], replicate 100 (CHR ''b'')]]"
    unfolding c splitLargeSection_texts g by simp
  have "map c_tokens (createChunks ?m [?s]) = map estimateTokens (map c_text (createChunks ?m [?s]))"
    unfolding c using splitLargeSection_tokens [of _ ?m ?s] by simp
  then have k: "map c_tokens (createChunks ?m [?s]) = [5, 1006, 33]"
    unfolding t by (simp add: estimateTokens_def)
  have "estimateTokens (replicate 3990 (CHR ''a'')) = 998" by (simp add: estimateTokens_def)
  with k t show ?thesis by blast
qed

lemma header_over_ceiling_example:
  "map c_tokens (createChunks
      \<lparr>m_id = ''g'', m_title = replicate 4000 (CHR ''t''), m_category = One ''c'',
       m_subcategory = None, m_type = ''guide'', m_status = ''draft'', m_version = ''1'',
       m_last_updated = '''', m_languages = None, m_frameworks = None, m_platforms = None,
       m_tags = [], m_related_guides = None\<rparr>
      [\<lparr>s_id = ''s'', s_level = 2, s_title = ''S'', s_content = replicate 100 (CHR ''b''),
        s_codeBlocks = [], s_startLine = 0, s_endLine = 1\<rparr>])
   = [1004, 1033]
   \<and> map c_text (createChunks
      \<lparr>m_id = ''g'', m_title = replicate 4000 (CHR ''t''), m_category = One ''c'',
       m_subcategory = None, m_type = ''guide'', m_status = ''draft'', m_version = ''1'',
       m_last_updated = '''', m_languages = None, m_frameworks = None, m_platforms = None,
       m_tags = [], m_related_guides = None\<rparr>
      [\<lparr>s_id = ''s'', s_level = 2, s_title = ''S'', s_content = replicate 100 (CHR ''b''),
        s_codeBlocks = [], s_startLine = 0, s_endLine = 1\<rparr>])
     = [join [NL, NL] [''# '' @ replicate 4000 (CHR ''t''), ''Section: S'', []],
        join [NL, NL] [''# '' @ replicate 4000 (CHR ''t''), ''Section: S (continued)'', [],
                       replicate 100 (CHR ''b'')]]"
proof -
  let ?m = "\<lparr>m_id = ''g'', m_title = replicate 4000 (CHR ''t''), m_category = One ''c'',
       m_subcategory = None, m_type = ''guide'', m_status = ''draft'', m_version = ''1'',
       m_last_updated = '''', m_languages = None, m_frameworks = None, m_platforms = None,
       m_tags = [], m_related_guides = None\<rparr>"
  let ?s = "\<lparr>s_id = ''s'', s_level = 2, s_title = ''S'', s_content = replicate 100 (CHR ''b''),
        s_codeBlocks = [], s_startLine = 0, s_endLine = 1\<rparr>"
  have len: "100 \<le> length (s_content ?s)" by simp
  have big: "1000 < estimateTokens (chunkText ?m ?s)" by (simp add: chunk_eval)
  have c: "createChunks ?m [?s] = splitLargeSection ?m ?s"
    using len big by (rule createChunks_split)
  have one: "split [NL, NL] (replicate 100 (CHR ''b'')) = [replicate 100 (CHR ''b'')]"
    using split_from_plain [of "replicate 100 (CHR ''b'')" "[]"] by (simp add: split_def NL_def)
  have g: "paragraph_groups ?m ?s
           = [([''# '' @ replicate 4000 (CHR ''t''), ''Section: S'', []], []),
              ([''# '' @ replicate 4000 (CHR ''t''), ''Section: S (continued)'', []],
               [replicate 100 (CHR ''b'')])]"
    using one by (simp add: chunk_eval)
  have t: "map c_text (createChunks ?m [?s])
     = [join [NL, NL] [''# '' @ replicate 4000 (CHR ''t''), ''Section: S'', []],
        join [NL, NL] [''# '' @ replicate 4000 (CHR ''t''), ''Section: S (continued)'', [],
                       replicate 100 (CHR ''b'')]]"
    unfolding c splitLargeSection_texts g by simp
  have "map c_tokens (createChunks ?m [?s]) = map estimateTokens (map c_text (createChunks ?m [?s]))"
    unfolding c using splitLargeSection_tokens [of _ ?m ?s] by simp
  then have k: "map c_tokens (createChunks ?m [?s]) = [1004, 1033]"
    unfolding t by (simp add: estimateTokens_def)
  from k t show ?thesis by (rule conjI)
qed

text \<open>
  The claim as stated fails. A paragraph of 3990 characters is within the ceiling by
  itself (998 tokens), and its chunk, with the continuation header, is not (1006
  tokens); the first chunk of that section holds the header alone. And with a title
  of 4000 characters the header-only chunk, which holds no paragraph, is over the
  ceiling (1004 tokens), as is the chunk of a paragraph of 100 characters.
\<close>

theorem createChunks_token_bound_counterexample:
  "(map c_tokens (createChunks
      \<lparr>m_id = ''g'', m_title = ''T'', m_category = One ''c'', m_subcategory = None,
       m_type = ''guide'', m_status = ''draft'', m_version = ''1'', m_last_updated = '''',
       m_languages = None, m_frameworks = None, m_platforms = None, m_tags = [],
       m_related_guides = None\<rparr>
      [\<lparr>s_id = ''s'', s_level = 2, s_title = ''S'',
        s_content = replicate 3990 (CHR ''a'') @ [NL, NL] @ replicate 100 (CHR ''b''),
        s_codeBlocks = [], s_startLine = 0, s_endLine = 2\<rparr>])
   = [5, 1006, 33]
   \<and> map c_text (createChunks
      \<lparr>m_id = ''g'', m_title = ''T'', m_category = One ''c'', m_subcategory = None,
       m_type = ''guide'', m_status = ''draft'', m_version = ''1'', m_last_updated = '''',
       m_languages = None, m_frameworks = None, m_platforms = None, m_tags = [],
       m_related_guides = None\<rparr>
      [\<lparr>s_id = ''s'', s_level = 2, s_title = ''S'',
        s_content = replicate 3990 (CHR ''a'') @ [NL, NL] @ replicate 100 (CHR ''b''),
        s_codeBlocks = [], s_startLine = 0, s_endLine = 2\<rparr>])
     = [join [NL, NL] [''# T'', ''Section: S'', []],
        join [NL, NL] [''# T'', ''Section: S (continued)'', [], replicate 3990 (CHR ''a'')],
        join [NL, NL] [''# T'', ''Section: S (continued)'', [], replicate 100 (CHR ''b'')]]
   \<and> estimateTokens (replicate 3990 (CHR ''a'')) = 998)
   \<and> (map c_tokens (createChunks
      \<lparr>m_id = ''g'', m_title = replicate 4000 (CHR ''t''), m_category = One ''c'',
       m_subcategory = None, m_type = ''guide'', m_status = ''draft'', m_version = ''1'',
       m_last_updated = '''', m_languages = None, m_frameworks = None, m_platforms = None,
       m_tags = [], m_related_guides = None\<rparr>
      [\<lparr>s_id = ''s'', s_level = 2, s_title = ''S'', s_content = replicate 100 (CHR ''b''),
        s_codeBlocks = [], s_startLine = 0, s_endLine = 1\<rparr>])
   = [1004, 1033]
   \<and> map c_text (createChunks
      \<lparr>m_id = ''g'', m_title = replicate 4000 (CHR ''t''), m_category = One ''c'',
       m_subcategory = None, m_type = ''guide'', m_status = ''draft'', m_version = ''1'',
       m_last_updated = '''', m_languages = None, m_frameworks = None, m_platforms = None,
       m_tags = [], m_related_guides = None\<rparr>
      [\<lparr>s_id = ''s'', s_level = 2, s_title = ''S'', s_content = replicate 100 (CHR ''b''),
        s_codeBlocks = [], s_startLine = 0, s_endLine = 1\<rparr>])
     = [join [NL, NL] [''# '' @ replicate 4000 (CHR ''t''), ''Section: S'', []],
        join [NL, NL] [''# '' @ replicate 4000 (CHR ''t''), ''Section: S (continued)'', [],
                       replicate 100 (CHR ''b'')]])"
  using paragraph_within_ceiling_example header_over_ceiling_example by (rule conjI)

theorem createChunks_token_bound_witness:
  "list_all (\<lambda>c. c_tokens c = estimateTokens (c_text c)) (createChunks
      \<lparr>m_id = ''g'', m_title = ''T'', m_category = One ''c'', m_subcategory = None,
       m_type = ''guide'', m_status = ''draft'', m_version = ''1'', m_last_updated = '''',
       m_languages = None, m_frameworks = None, m_platforms = None, m_tags = [],
       m_related_guides = None\<rparr>
      [\<lparr>s_id = ''s'', s_level = 2, s_title = ''S'',
        s_content = replicate 3990 (CHR ''a'') @ [NL, NL] @ replicate 100 (CHR ''b''),
        s_codeBlocks = [], s_startLine = 0, s_endLine = 2\<rparr>])
   \<and> (\<exists>c \<in> set (createChunks
      \<lparr>m_id = ''g'', m_title = ''T'', m_category = One ''c'', m_subcategory = None,
       m_type = ''guide'', m_status = ''draft'', m_version = ''1'', m_last_updated = '''',
       m_languages = None, m_frameworks = None, m_platforms = None, m_tags = [],
       m_related_guides = None\<rparr>
      [\<lparr>s_id = ''s'', s_level = 2, s_title = ''S'',
        s_content = replicate 3990 (CHR ''a'') @ [NL, NL] @ replicate 100 (CHR ''b''),
        s_codeBlocks = [], s_startLine = 0, s_endLine = 2\<rparr>]).
        \<exists>(h, grp) \<in> set (paragraph_groups
      \<lparr>m_id = ''g'', m_title = ''T'', m_category = One ''c'', m_subcategory = None,
       m_type = ''guide'', m_status = ''draft'', m_version = ''1'', m_last_updated = '''',
       m_languages = None, m_frameworks = None, m_platforms = None, m_tags = [],
       m_related_guides = None\<rparr>
      \<lparr>s_id = ''s'', s_level = 2, s_title = ''S'',
        s_content = replicate 3990 (CHR ''a'') @ [NL, NL] @ replicate 100 (CHR ''b''),
        s_codeBlocks = [], s_startLine = 0, s_endLine = 2\<rparr>).
          replicate 3990 (CHR ''a'') \<in> set grp \<and> c_text c = join [NL, NL] (h @ grp))"
proof -
  let ?m = "\<lparr>m_id = ''g'', m_title = ''T'', m_category = One ''c'', m_subcategory = None,
       m_type = ''guide'', m_status = ''draft'', m_version = ''1'', m_last_updated = '''',
       m_languages = None, m_frameworks = None, m_platforms = None, m_tags = [],
       m_related_guides = None\<rparr>"
  let ?s = "\<lparr>s_id = ''s'', s_level = 2, s_title = ''S'',
        s_content = replicate 3990 (CHR ''a'') @ [NL, NL] @ replicate 100 (CHR ''b''),
        s_codeBlocks = [], s_startLine = 0, s_endLine = 2\<rparr>"
  have len: "100 \<le> length (s_content ?s)" by simp
  have big: "1000 < estimateTokens (chunkText ?m ?s)" by (simp add: chunk_eval)
  have p: "replicate 3990 (CHR ''a'') \<in> set (split [NL, NL] (s_content ?s))"
    using two_paragraphs by simp
  note t = createChunks_token_bound [of ?m "[?s]"]
  have a: "list_all (\<lambda>c. c_tokens c = estimateTokens (c_text c)) (createChunks ?m [?s])"
    using t unfolding list_all_iff by blast
  have "\<forall>s \<in> set [?s]. 100 \<le> length (s_content s) \<and> 1000 < estimateTokens (chunkText ?m s) \<longrightarrow>
        (\<forall>p \<in> set (split [NL, NL] (s_content s)).
           \<exists>c \<in> set (createChunks ?m [?s]). \<exists>(h, grp) \<in> set (paragraph_groups ?m s).
             p \<in> set grp \<and> c_text c = join [NL, NL] (h @ grp))"
    using t by (rule conjunct2)
  then have "\<forall>p \<in> set (split [NL, NL] (s_content ?s)).
           \<exists>c \<in> set (createChunks ?m [?s]). \<exists>(h, grp) \<in> set (paragraph_groups ?m ?s).
             p \<in> set grp \<and> c_text c = join [NL, NL] (h @ grp)"
    using len big by simp
  then have "\<exists>c \<in> set (createChunks ?m [?s]). \<exists>(h, grp) \<in> set (paragraph_groups ?m ?s).
             replicate 3990 (CHR ''a'') \<in> set grp \<and> c_text c = join [NL, NL] (h @ grp)"
    using p by (rule bspec)
  with a show ?thesis by (rule conjI)
qed

theorem createChunks_cover_section_witness:
  "100 \<le> length (s_content
      \<lparr>s_id = ''s'', s_level = 2, s_title = ''S'',
        s_content = replicate 3990 (CHR ''a'') @ [NL, NL] @ replicate 100 (CHR ''b''),
        s_codeBlocks = [], s_startLine = 0, s_endLine = 2\<rparr>)
   \<and> join [NL, NL] (concat (map snd (paragraph_groups
      \<lparr>m_id = ''g'', m_title = ''T'', m_category = One ''c'', m_subcategory = None,
       m_type = ''guide'', m_status = ''draft'', m_version = ''1'', m_last_updated = '''',
       m_languages = None, m_frameworks = None, m_platforms = None, m_tags = [],
       m_related_guides = None\<rparr>
      \<lparr>s_id = ''s'', s_level = 2, s_title = ''S'',
        s_content = replicate 3990 (CHR ''a'') @ [NL, NL] @ replicate 100 (CHR ''b''),
        s_codeBlocks = [], s_startLine = 0, s_endLine = 2\<rparr>)))
     = replicate 3990 (CHR ''a'') @ [NL, NL] @ replicate 100 (CHR ''b'')
   \<and> map c_text (createChunks
      \<lparr>m_id = ''g'', m_title = ''T'', m_category = One ''c'', m_subcategory = None,
       m_type = ''guide'', m_status = ''draft'', m_version = ''1'', m_last_updated = '''',
       m_languages = None, m_frameworks = None, m_platforms = None, m_tags = [],
       m_related_guides = None\<rparr>
      [\<lparr>s_id = ''s'', s_level = 2, s_title = ''S'',
        s_content = replicate 3990 (CHR ''a'') @ [NL, NL] @ replicate 100 (CHR ''b''),
        s_codeBlocks = [], s_startLine = 0, s_endLine = 2\<rparr>])
     = map (\<lambda>(h, grp). join [NL, NL] (h @ grp)) (paragraph_groups
      \<lparr>m_id = ''g'', m_title = ''T'', m_category = One ''c'', m_subcategory = None,
       m_type = ''guide'', m_status = ''draft'', m_version = ''1'', m_last_updated = '''',
       m_languages = None, m_frameworks = None, m_platforms = None, m_tags = [],
       m_related_guides = None\<rparr>
      \<lparr>s_id = ''s'', s_level = 2, s_title = ''S'',
        s_content = replicate 3990 (CHR ''a'') @ [NL, NL] @ replicate 100 (CHR ''b''),
        s_codeBlocks = [], s_startLine = 0, s_endLine = 2\<rparr>)"
proof -
  let ?m = "\<lparr>m_id = ''g'', m_title = ''T'', m_category = One ''c'', m_subcategory = None,
       m_type = ''guide'', m_status = ''draft'', m_version = ''1'', m_last_updated = '''',
       m_languages = None, m_frameworks = None, m_platforms = None, m_tags = [],
       m_related_guides = None\<rparr>"
  let ?s = "\<lparr>s_id = ''s'', s_level = 2, s_title = ''S'',
        s_content = replicate 3990 (CHR ''a'') @ [NL, NL] @ replicate 100 (CHR ''b''),
        s_codeBlocks = [], s_startLine = 0, s_endLine = 2\<rparr>"
  have len: "100 \<le> length (s_content ?s)" by simp
  have big: "1000 < estimateTokens (chunkText ?m ?s)" by (simp add: chunk_eval)
  note t = createChunks_cover_section [OF len, of ?m]
  have "map c_text (createChunks ?m [?s])
          = map (\<lambda>(h, grp). join [NL, NL] (h @ grp)) (paragraph_groups ?m ?s)
        \<and> (\<forall>(h, grp) \<in> set (paragraph_groups ?m ?s).
              h = first_header ?m ?s \<or> h = continued_header ?m ?s)
        \<and> concat (map snd (paragraph_groups ?m ?s)) = split [NL, NL] (s_content ?s)
        \<and> join [NL, NL] (concat (map snd (paragraph_groups ?m ?s))) = s_content ?s"
    using t big by blast
  then have "map c_text (createChunks ?m [?s])
          = map (\<lambda>(h, grp). join [NL, NL] (h @ grp)) (paragraph_groups ?m ?s)"
    and "join [NL, NL] (concat (map snd (paragraph_groups ?m ?s))) = s_content ?s"
    by blast+
  then show ?thesis using len by simp
qed

text \<open>
  The claim as stated fails: a section whose content has fewer than 100 characters
  gets no chunk.
\<close>

theorem createChunks_cover_section_counterexample:
  "createChunks
      \<lparr>m_id = ''g'', m_title = ''T'', m_category = One ''c'', m_subcategory = None,
       m_type = ''guide'', m_status = ''draft'', m_version = ''1'', m_last_updated = '''',
       m_languages = None, m_frameworks = None, m_platforms = None, m_tags = [],
       m_related_guides = None\<rparr>
      [\<lparr>s_id = ''s'', s_level = 2, s_title = ''S'', s_content = ''Too short.'',
        s_codeBlocks = [], s_startLine = 0, s_endLine = 1\<rparr>] = []
   \<and> s_content \<lparr>s_id = ''s'', s_level = 2, s_title = ''S'', s_content = ''Too short.'',
        s_codeBlocks = [], s_startLine = 0, s_endLine = 1\<rparr> \<noteq> []"
  by simp

section \<open>Properties of the indexing coordinators\<close>





































section \<open>Properties of the guide assembler\<close>

text \<open>
  Claim C9, as amended. Both routes answer an unknown guide id with the failure
  \<^verbatim>\<open>Guide not found\<close> (status 404), not with a successful result. The route of the
  worker leaves the body out of a successful answer when a section id is given, and
  gives the stored body otherwise. The route of \<^verbatim>\<open>GuideSearchService\<close> gives the
  stored body in every successful answer, with or without a section id.
\<close>

theorem get_guide_not_found_and_body:
  "(truthy guideId \<and> find (\<lambda>g. Some (g_id g) = guideId) (st_guides stores) = None \<longrightarrow>
      get_guide json_parse stores guideId sectionId = Failure 404 ''Guide not found'')
   \<and> (find (\<lambda>g. g_id g = gid) (st_guides stores) = None \<longrightarrow>
        get_guide_service stores gid sectionId = Failure 404 ''Guide not found'')
   \<and> (\<forall>view. truthy sectionId \<and> get_guide json_parse stores guideId sectionId = Success view \<longrightarrow>
        gv_markdown view = None)
   \<and> (\<forall>view. \<not> truthy sectionId \<and> get_guide json_parse stores guideId sectionId = Success view \<longrightarrow>
        gv_markdown view = map_of (st_r2 stores) (g_markdown_url (gv_guide view)))
   \<and> (\<forall>metadata. find (\<lambda>g. g_id g = gid) (st_guides stores) = Some metadata \<longrightarrow>
        (\<exists>guide. get_guide_service stores gid sectionId = Success guide
           \<and> gd_markdown guide = (case map_of (st_r2 stores) (g_markdown_url metadata) of
                                    Some body \<Rightarrow> body | None \<Rightarrow> [])))"
proof -
  have a: "truthy guideId \<and> find (\<lambda>g. Some (g_id g) = guideId) (st_guides stores) = None \<longrightarrow>
      get_guide json_parse stores guideId sectionId = Failure 404 ''Guide not found''"
    by (simp add: get_guide_def)
  have b: "find (\<lambda>g. g_id g = gid) (st_guides stores) = None \<longrightarrow>
        get_guide_service stores gid sectionId = Failure 404 ''Guide not found''"
    by (simp add: get_guide_service_def getGuide_def)
  have c: "\<forall>view. truthy sectionId \<and> get_guide json_parse stores guideId sectionId = Success view \<longrightarrow>
        gv_markdown view = None"
    by (auto simp: get_guide_def Let_def split: if_splits option.splits sum.splits)
  have d: "\<forall>view. \<not> truthy sectionId \<and> get_guide json_parse stores guideId sectionId = Success view \<longrightarrow>
        gv_markdown view = map_of (st_r2 stores) (g_markdown_url (gv_guide view))"
    by (auto simp: get_guide_def Let_def split: if_splits option.splits sum.splits)
  have e: "\<forall>metadata. find (\<lambda>g. g_id g = gid) (st_guides stores) = Some metadata \<longrightarrow>
        (\<exists>guide. get_guide_service stores gid sectionId = Success guide
           \<and> gd_markdown guide = (case map_of (st_r2 stores) (g_markdown_url metadata) of
                                    Some body \<Rightarrow> body | None \<Rightarrow> []))"
    by (simp add: get_guide_service_def getGuide_def Let_def)
  from a b c d e show ?thesis by (intro conjI)
qed

text \<open>Evaluation of the routes on a concrete store.\<close>

lemmas guide_eval = get_guide_def get_guide_service_def getGuide_def truthy_def Let_def

text \<open>
  The claim as stated fails for \<^const>\<open>get_guide_service\<close>: the answer to a request
  for one section holds the whole body.
\<close>

theorem get_guide_not_found_and_body_counterexample:
  "get_guide_service
     \<lparr>st_r2 = [(''guides/g1.md'', ''BODY'')],
      st_guides = [\<lparr>g_id = ''g1'', g_title = ''Guide'', g_category = ''meta'',
                     g_subcategory = None, g_type = ''guide'', g_status = ''draft'',
                     g_version = ''1.0'', g_last_updated = ''2025-01-01'', g_tags = ''[]'',
                     g_related_guides = None, g_markdown_url = ''guides/g1.md''\<rparr>],
      st_sections = [\<lparr>ss_id = ''section-1'', ss_guide_id = ''g1'', ss_level = 1,
                       ss_title = ''A'', ss_content = ''text'', ss_start_line = 1,
                       ss_end_line = 2\<rparr>],
      st_code_examples = [], st_guides_fts = [], st_vectors = []\<rparr>
     ''g1'' (Some ''section-1'')
   = Success \<lparr>gd_id = ''g1'', gd_title = ''Guide'', gd_category = ''meta'',
       gd_sections = [\<lparr>gs_id = ''section-1'', gs_title = ''A'', gs_content = ''text'',
                        gs_codeExamples = []\<rparr>],
       gd_relatedGuides = [], gd_markdown = ''BODY''\<rparr>"
  by (simp add: guide_eval)

theorem get_guide_not_found_and_body_witness:
  "get_guide (\<lambda>s. Inr [])
     \<lparr>st_r2 = [(''guides/g1.md'', ''BODY'')],
      st_guides = [\<lparr>g_id = ''g1'', g_title = ''Guide'', g_category = ''meta'',
                     g_subcategory = None, g_type = ''guide'', g_status = ''draft'',
                     g_version = ''1.0'', g_last_updated = ''2025-01-01'', g_tags = ''[]'',
                     g_related_guides = None, g_markdown_url = ''guides/g1.md''\<rparr>],
      st_sections = [\<lparr>ss_id = ''section-1'', ss_guide_id = ''g1'', ss_level = 1,
                       ss_title = ''A'', ss_content = ''text'', ss_start_line = 1,
                       ss_end_line = 2\<rparr>],
      st_code_examples = [], st_guides_fts = [], st_vectors = []\<rparr>
     (Some ''missing-id'') None = Failure 404 ''Guide not found''
   \<and> get_guide_service
     \<lparr>st_r2 = [(''guides/g1.md'', ''BODY'')],
      st_guides = [\<lparr>g_id = ''g1'', g_title = ''Guide'', g_category = ''meta'',
                     g_subcategory = None, g_type = ''guide'', g_status = ''draft'',
                     g_version = ''1.0'', g_last_updated = ''2025-01-01'', g_tags = ''[]'',
                     g_related_guides = None, g_markdown_url = ''guides/g1.md''\<rparr>],
      st_sections = [\<lparr>ss_id = ''section-1'', ss_guide_id = ''g1'', ss_level = 1,
                       ss_title = ''A'', ss_content = ''text'', ss_start_line = 1,
                       ss_end_line = 2\<rparr>],
      st_code_examples = [], st_guides_fts = [], st_vectors = []\<rparr>
     ''missing-id'' None = Failure 404 ''Guide not found''
   \<and> map_response gv_markdown (get_guide (\<lambda>s. Inr [])
     \<lparr>st_r2 = [(''guides/g1.md'', ''BODY'')],
      st_guides = [\<lparr>g_id = ''g1'', g_title = ''Guide'', g_category = ''meta'',
                     g_subcategory = None, g_type = ''guide'', g_status = ''draft'',
                     g_version = ''1.0'', g_last_updated = ''2025-01-01'', g_tags = ''[]'',
                     g_related_guides = None, g_markdown_url = ''guides/g1.md''\<rparr>],
      st_sections = [\<lparr>ss_id = ''section-1'', ss_guide_id = ''g1'', ss_level = 1,
                       ss_title = ''A'', ss_content = ''text'', ss_start_line = 1,
                       ss_end_line = 2\<rparr>],
      st_code_examples = [], st_guides_fts = [], st_vectors = []\<rparr>
     (Some ''g1'') (Some ''section-1'')) = Success None"
proof -
  let ?st = "\<lparr>st_r2 = [(''guides/g1.md'', ''BODY'')],
      st_guides = [\<lparr>g_id = ''g1'', g_title = ''Guide'', g_category = ''meta'',
                     g_subcategory = None, g_type = ''guide'', g_status = ''draft'',
                     g_version = ''1.0'', g_last_updated = ''2025-01-01'', g_tags = ''[]'',
                     g_related_guides = None, g_markdown_url = ''guides/g1.md''\<rparr>],
      st_sections = [\<lparr>ss_id = ''section-1'', ss_guide_id = ''g1'', ss_level = 1,
                       ss_title = ''A'', ss_content = ''text'', ss_start_line = 1,
                       ss_end_line = 2\<rparr>],
      st_code_examples = [], st_guides_fts = [], st_vectors = []\<rparr>"
  have m: "truthy (Some ''missing-id'')
           \<and> find (\<lambda>g. Some (g_id g) = Some ''missing-id'') (st_guides ?st) = None"
    by (simp add: truthy_def)
  have n: "find (\<lambda>g. g_id g = ''missing-id'') (st_guides ?st) = None"
    by simp
  note t = get_guide_not_found_and_body [of "Some ''missing-id''" ?st "\<lambda>s. Inr []" None "''missing-id''"]
  note u = get_guide_not_found_and_body [of "Some ''g1''" ?st "\<lambda>s. Inr []" "Some ''section-1''"]
  have a: "get_guide (\<lambda>s. Inr []) ?st (Some ''missing-id'') None = Failure 404 ''Guide not found''"
    using t m by blast
  have b: "get_guide_service ?st ''missing-id'' None = Failure 404 ''Guide not found''"
    using t n by blast
  obtain view where v: "get_guide (\<lambda>s. Inr []) ?st (Some ''g1'') (Some ''section-1'') = Success view"
    by (simp add: guide_eval)
  have w: "truthy (Some ''section-1'')" by (simp add: truthy_def)
  have "gv_markdown view = None" using u v w by blast
  then have c: "map_response gv_markdown (get_guide (\<lambda>s. Inr []) ?st (Some ''g1'') (Some ''section-1''))
                = Success None"
    unfolding v by simp
  from a b c show ?thesis by (intro conjI)
qed

end
